theory Spec2Isabelle
  imports Complex_Main "HOL-Library.List_Lexorder" "HOL-Library.Char_ord" "HOL-Library.Multiset"
    "HOL-Library.Log_Nat"
begin

section \<open>Numbers, missing values and rounding\<close>

text \<open>
  The scripts hold their columns in pandas. A numeric cell is either a number or the
  missing-value marker NaN (what \<open>pd.to_numeric(..., errors='coerce')\<close> and a NULL read
  back from SQLite produce). A cell is modelled as \<open>rat option\<close>: \<open>None\<close> is NaN and
  \<open>Some q\<close> is the number \<open>q\<close>. Comparisons with NaN are false, and the reductions
  \<open>sum\<close>, \<open>count\<close> and \<open>mean\<close> skip NaN, as pandas does by default. The grouping
  summaries below compute on these numbers exactly; the savings and percentage columns,
  where binary rounding decides the result, use the float64 arithmetic of the next
  section.
\<close>

type_synonym cell = "rat option"

definition nan_lt :: "cell \<Rightarrow> rat \<Rightarrow> bool" where
  "nan_lt a b = (case a of None \<Rightarrow> False | Some x \<Rightarrow> x < b)"

definition nan_le :: "cell \<Rightarrow> rat \<Rightarrow> bool" where
  "nan_le a b = (case a of None \<Rightarrow> False | Some x \<Rightarrow> x \<le> b)"

definition nan_ge :: "cell \<Rightarrow> rat \<Rightarrow> bool" where
  "nan_ge a b = (case a of None \<Rightarrow> False | Some x \<Rightarrow> b \<le> x)"

definition nan_gt :: "cell \<Rightarrow> rat \<Rightarrow> bool" where
  "nan_gt a b = (case a of None \<Rightarrow> False | Some x \<Rightarrow> b < x)"

fun nansum :: "cell list \<Rightarrow> rat" where
  "nansum [] = 0"
| "nansum (None # xs) = nansum xs"
| "nansum (Some x # xs) = x + nansum xs"

fun nancount :: "cell list \<Rightarrow> nat" where
  "nancount [] = 0"
| "nancount (None # xs) = nancount xs"
| "nancount (Some x # xs) = Suc (nancount xs)"

definition nanmean :: "cell list \<Rightarrow> cell" where
  "nanmean xs = (if nancount xs = 0 then None else Some (nansum xs / of_nat (nancount xs)))"

text \<open>
  \<open>Series.round(n)\<close> is numpy's \<open>around\<close>: scale by \<open>10^n\<close>, round to the nearest
  integer with halves going to the even neighbour (\<open>rint\<close>), scale back.
\<close>

definition rint :: "rat \<Rightarrow> int" where
  "rint x =
     (let f = \<lfloor>x\<rfloor>; d = x - of_int f
      in if d < 1 / 2 then f
         else if 1 / 2 < d then f + 1
         else if even f then f else f + 1)"

definition round_dec :: "nat \<Rightarrow> rat \<Rightarrow> rat" where
  "round_dec n x = of_int (rint (x * 10 ^ n)) / 10 ^ n"

definition round_cell :: "nat \<Rightarrow> cell \<Rightarrow> cell" where
  "round_cell n c = map_option (round_dec n) c"

section \<open>Float64 arithmetic\<close>

text \<open>
  A float64 value is a finite number (zero being positive zero), negative zero, an
  infinity or NaN. \<open>double_round\<close> is IEEE 754 rounding to nearest, ties to even: the
  result keeps 53 significant bits, so a number \<open>x\<close> with \<open>2^k \<le> |x| < 2^(k+1)\<close> is
  rounded to a multiple of \<open>2^(k-52)\<close>, but never finer than \<open>2^-1074\<close> (subnormal
  numbers); a rounded magnitude of \<open>2^1024\<close> or more overflows to an infinity, and a
  number that rounds to zero keeps its sign.
\<close>

datatype fnum = Finite rat | NegZero | PosInf | NegInf | NaN

definition pow2 :: "int \<Rightarrow> rat" where
  "pow2 e = (if 0 \<le> e then 2 ^ nat e else 1 / 2 ^ nat (- e))"

text \<open>For \<open>x > 0\<close>, the \<open>k\<close> with \<open>2^k \<le> x < 2^(k+1)\<close>.\<close>

definition floor_log2 :: "rat \<Rightarrow> int" where
  "floor_log2 x =
     (let k = bitlen (fst (quotient_of x)) - bitlen (snd (quotient_of x))
      in if pow2 k \<le> x then k else k - 1)"

definition round_to_exp :: "int \<Rightarrow> rat \<Rightarrow> rat" where
  "round_to_exp e x = of_int (rint (x / pow2 e)) * pow2 e"

definition quantum_exp :: "rat \<Rightarrow> int" where
  "quantum_exp x = max (floor_log2 \<bar>x\<bar> - 52) (- 1074)"

definition double_round :: "rat \<Rightarrow> fnum" where
  "double_round x =
     (if x = 0 then Finite 0
      else let y = round_to_exp (quantum_exp x) x
           in if y = 0 then (if 0 < x then Finite 0 else NegZero)
              else if 1024 \<le> floor_log2 \<bar>y\<bar> then (if 0 < x then PosInf else NegInf)
              else Finite y)"

definition is_zero :: "fnum \<Rightarrow> bool" where
  "is_zero a = (a = Finite 0 \<or> a = NegZero)"

definition is_inf :: "fnum \<Rightarrow> bool" where
  "is_inf a = (a = PosInf \<or> a = NegInf)"

definition is_neg :: "fnum \<Rightarrow> bool" where
  "is_neg a = (case a of Finite x \<Rightarrow> x < 0 | NegZero \<Rightarrow> True | NegInf \<Rightarrow> True | other \<Rightarrow> False)"

definition fval :: "fnum \<Rightarrow> rat" where
  "fval a = (case a of Finite x \<Rightarrow> x | other \<Rightarrow> 0)"

definition signed_zero :: "bool \<Rightarrow> fnum" where
  "signed_zero neg = (if neg then NegZero else Finite 0)"

definition signed_inf :: "bool \<Rightarrow> fnum" where
  "signed_inf neg = (if neg then NegInf else PosInf)"

text \<open>
  Subtraction, division, multiplication and \<open>rint\<close> on float64, with the IEEE rules
  for the special values: an exact zero difference is positive zero unless it is
  \<open>(-0) - (+0)\<close>; the sign of a quotient or product is the exclusive or of the signs;
  \<open>0 / 0\<close>, \<open>inf / inf\<close>, \<open>inf - inf\<close> and \<open>0 * inf\<close> are NaN; a non-zero number
  divided by zero is an infinity.
\<close>

definition fsub :: "fnum \<Rightarrow> fnum \<Rightarrow> fnum" where
  "fsub a b =
     (if a = NaN \<or> b = NaN then NaN
      else if is_inf a then (if a = b then NaN else a)
      else if is_inf b then signed_inf (b = PosInf)
      else if fval a - fval b = 0 then signed_zero (a = NegZero \<and> b = Finite 0)
      else double_round (fval a - fval b))"

definition fdiv :: "fnum \<Rightarrow> fnum \<Rightarrow> fnum" where
  "fdiv a b =
     (if a = NaN \<or> b = NaN then NaN
      else if is_inf a then (if is_inf b then NaN else signed_inf (is_neg a \<noteq> is_neg b))
      else if is_inf b then signed_zero (is_neg a \<noteq> is_neg b)
      else if is_zero b then (if is_zero a then NaN else signed_inf (is_neg a \<noteq> is_neg b))
      else if is_zero a then signed_zero (is_neg a \<noteq> is_neg b)
      else double_round (fval a / fval b))"

definition fmul :: "fnum \<Rightarrow> fnum \<Rightarrow> fnum" where
  "fmul a b =
     (if a = NaN \<or> b = NaN then NaN
      else if is_inf a \<or> is_inf b
        then (if is_zero a \<or> is_zero b then NaN else signed_inf (is_neg a \<noteq> is_neg b))
      else if is_zero a \<or> is_zero b then signed_zero (is_neg a \<noteq> is_neg b)
      else double_round (fval a * fval b))"

definition frint :: "fnum \<Rightarrow> fnum" where
  "frint a =
     (case a of
        Finite x \<Rightarrow> (if rint x = 0 then signed_zero (x < 0) else Finite (of_int (rint x)))
      | other \<Rightarrow> other)"

text \<open>
  \<open>Series.round(n)\<close> for \<open>n > 0\<close> on a float64 column is numpy's \<open>around\<close>: multiply
  by \<open>10^n\<close>, \<open>rint\<close>, divide by \<open>10^n\<close>, each step a float64 operation.
\<close>

definition np_round :: "nat \<Rightarrow> fnum \<Rightarrow> fnum" where
  "np_round n a = fdiv (frint (fmul a (Finite (10 ^ n)))) (Finite (10 ^ n))"

text \<open>A cell read as float64: the number nearest to the cell's value, or NaN.\<close>

definition cell_double :: "cell \<Rightarrow> fnum" where
  "cell_double c = (case c of None \<Rightarrow> NaN | Some q \<Rightarrow> double_round q)"

section \<open>Grouping\<close>

text \<open>
  \<open>DataFrame.groupby(key)\<close> with its defaults drops the rows whose key is missing and
  yields one group per distinct key, the groups in ascending key order.
\<close>

definition group_keys :: "('r \<Rightarrow> 'k::linorder option) \<Rightarrow> 'r list \<Rightarrow> 'k list" where
  "group_keys key rows = sort (remdups (List.map_filter key rows))"

definition group_rows :: "('r \<Rightarrow> 'k option) \<Rightarrow> 'r list \<Rightarrow> 'k \<Rightarrow> 'r list" where
  "group_rows key rows k = filter (\<lambda>r. key r = Some k) rows"

section \<open>Age segmentation\<close>

text \<open>\<open>SalesDataExtractor.categorize_age\<close> of data_extraction.py.\<close>

definition categorize_age :: "cell \<Rightarrow> string" where
  "categorize_age age =
     (if age = None then ''Unknown''
      else if nan_lt age 25 then ''Gen Z (Under 25)''
      else if nan_ge age 25 \<and> nan_le age 35 then ''Millennials (25-35)''
      else if nan_ge age 36 \<and> nan_le age 50 then ''Gen X (36-50)''
      else ''Boomers (50+)'')"

text \<open>
  The local \<open>categorize_age\<close> of \<open>create_customer_segmentation_chart\<close> in
  create_visualizations.py: the same chain without the \<open>pd.isna\<close> test.
\<close>

definition segmentation_categorize_age :: "cell \<Rightarrow> string" where
  "segmentation_categorize_age age =
     (if nan_lt age 25 then ''Gen Z (Under 25)''
      else if nan_ge age 25 \<and> nan_le age 35 then ''Millennials (25-35)''
      else if nan_ge age 36 \<and> nan_le age 50 then ''Gen X (36-50)''
      else ''Boomers (50+)'')"

text \<open>
  The executive dashboard (and the portfolio showcase) bin ages with
  \<open>pd.cut(age, bins=[0, 25, 35, 50, 100], labels=[...])\<close>. \<open>pd.cut\<close> uses intervals
  closed on the right: (0, 25], (25, 35], (35, 50], (50, 100]; a value in none of them
  (and NaN) gets no bin, and \<open>groupby\<close> then leaves the row out.
\<close>

definition dashboard_age_bin :: "cell \<Rightarrow> string option" where
  "dashboard_age_bin age =
     (if nan_gt age 0 \<and> nan_le age 25 then Some ''Gen Z (<25)''
      else if nan_gt age 25 \<and> nan_le age 35 then Some ''Millennials (25-35)''
      else if nan_gt age 35 \<and> nan_le age 50 then Some ''Gen X (35-50)''
      else if nan_gt age 50 \<and> nan_le age 100 then Some ''Boomers (50+)''
      else None)"

section \<open>Customer value segmentation\<close>

record cart =
  cart_id :: int
  userId :: "int option"
  total :: cell
  discountedTotal :: cell
  totalProducts :: cell
  totalQuantity :: cell

record customer_metric =
  total_spent :: rat
  avg_order_value :: cell
  order_count :: int
  total_items :: rat

text \<open>
  \<open>carts_df.groupby('userId').agg({'total': ['sum', 'mean', 'count'],
  'totalQuantity': 'sum'}).round(2)\<close>: one row per user id.
\<close>

definition customer_metrics_row :: "cart list \<Rightarrow> customer_metric" where
  "customer_metrics_row cs =
     \<lparr> total_spent = round_dec 2 (nansum (map total cs)),
       avg_order_value = round_cell 2 (nanmean (map total cs)),
       order_count = int (nancount (map total cs)),
       total_items = round_dec 2 (nansum (map totalQuantity cs)) \<rparr>"

definition customer_metrics :: "cart list \<Rightarrow> (int \<times> customer_metric) list" where
  "customer_metrics carts =
     map (\<lambda>u. (u, customer_metrics_row (group_rows userId carts u))) (group_keys userId carts)"

definition customer_value_segment :: "customer_metric \<Rightarrow> string" where
  "customer_value_segment row =
     (if total_spent row \<ge> 1500 \<and> order_count row \<ge> 3 then ''Premium Customer''
      else if total_spent row \<ge> 800 \<and> order_count row \<ge> 2 then ''Valuable Customer''
      else if total_spent row \<ge> 400 \<or> order_count row \<ge> 2 then ''Regular Customer''
      else ''Low-Value Customer'')"

definition customer_segments :: "cart list \<Rightarrow> (int \<times> string) list" where
  "customer_segments carts = map (\<lambda>(u, m). (u, customer_value_segment m)) (customer_metrics carts)"

definition mk_cart :: "int \<Rightarrow> int \<Rightarrow> rat \<Rightarrow> cart" where
  "mk_cart i u t =
     \<lparr> cart_id = i, userId = Some u, total = Some t, discountedTotal = Some t,
       totalProducts = Some 1, totalQuantity = Some 1 \<rparr>"

section \<open>Chart generation run\<close>

text \<open>
  \<open>generate_all_visualizations\<close> calls the five chart functions one after the other
  inside a single \<open>try\<close>. What a chart function does with the data is not needed here:
  a run is described by which chart functions raise (\<open>raises c = Some msg\<close>) and which
  return after saving their image. The state records the calls made, the images saved,
  the console lines and whether the database connection is still open.
\<close>

datatype chart =
  RevenueByCategory | CustomerSegmentation | SalesPerformance | ExecutiveSummary
  | PortfolioShowcase

definition all_charts :: "chart list" where
  "all_charts =
     [RevenueByCategory, CustomerSegmentation, SalesPerformance, ExecutiveSummary,
      PortfolioShowcase]"

fun chart_file :: "chart \<Rightarrow> string" where
  "chart_file RevenueByCategory = ''01_revenue_by_category_dashboard.png''"
| "chart_file CustomerSegmentation = ''02_customer_segmentation_dashboard.png''"
| "chart_file SalesPerformance = ''03_sales_performance_dashboard.png''"
| "chart_file ExecutiveSummary = ''04_executive_summary_dashboard.png''"
| "chart_file PortfolioShowcase = ''sales_performance_analytics_portfolio_showcase.png''"

record viz_state =
  attempted :: "chart list"
  rendered :: "chart list"
  console :: "string list"
  conn_open :: bool

definition create_chart ::
  "(chart \<Rightarrow> string option) \<Rightarrow> chart \<Rightarrow> viz_state \<Rightarrow> string option \<times> viz_state" where
  "create_chart raises c s =
     (let s1 = s\<lparr>attempted := attempted s @ [c]\<rparr>
      in case raises c of
           Some msg \<Rightarrow> (Some msg, s1)
         | None \<Rightarrow>
             (None, s1\<lparr>rendered := rendered s1 @ [c],
                        console := console s1 @ [''Chart saved: '' @ chart_file c]\<rparr>))"

text \<open>The body of the \<open>try\<close>: the first exception ends it.\<close>

fun try_charts ::
  "(chart \<Rightarrow> string option) \<Rightarrow> chart list \<Rightarrow> viz_state \<Rightarrow> string option \<times> viz_state" where
  "try_charts raises [] s = (None, s)"
| "try_charts raises (c # cs) s =
     (case create_chart raises c s of
        (Some msg, s1) \<Rightarrow> (Some msg, s1)
      | (None, s1) \<Rightarrow> try_charts raises cs s1)"

text \<open>
  The result is \<open>Some\<close> of the charts in the returned dictionary, or \<open>None\<close> for the
  \<open>return None\<close> of the \<open>except\<close> branch; the \<open>finally\<close> closes the connection.
\<close>

definition generate_all_visualizations ::
  "(chart \<Rightarrow> string option) \<Rightarrow> viz_state \<Rightarrow> chart list option \<times> viz_state" where
  "generate_all_visualizations raises s =
     (let s0 = s\<lparr>console := console s @
                 [''Starting Sales Performance Analytics Visualization Generation'']\<rparr>;
          (res, s2) =
            (case try_charts raises all_charts s0 of
               (None, s1) \<Rightarrow>
                 (Some (rendered s1),
                  s1\<lparr>console := console s1 @ [''All visualizations created successfully!'']\<rparr>)
             | (Some msg, s1) \<Rightarrow>
                 (None,
                  s1\<lparr>console := console s1 @ [''Error generating visualizations: '' @ msg]\<rparr>))
      in (res, s2\<lparr>conn_open := False\<rparr>))"

definition fresh_dashboard :: viz_state where
  "fresh_dashboard = \<lparr>attempted = [], rendered = [], console = [], conn_open = True\<rparr>"

section \<open>Extraction run\<close>

text \<open>
  \<open>requests.get\<close> followed by \<open>raise_for_status\<close> either yields the decoded JSON
  document or raises a \<open>RequestException\<close>: a connection error, a timeout, or an HTTP
  error for a status outside 2xx. The remote service is a function from the endpoint to
  that outcome. A JSON document is a dictionary from keys to row collections.
\<close>

datatype request_exception = ConnectionError | Timeout | HTTPError nat

datatype extraction_event =
  Fetching string
  | Fetched string
  | ErrorFetching string request_exception
  | SavedCsv string
  | CreateDatabase bool bool bool bool

type_synonym 'rows document = "(string \<times> 'rows) list"

definition fetch_data ::
  "(string \<Rightarrow> request_exception + 'rows document) \<Rightarrow> string \<Rightarrow> extraction_event list
     \<Rightarrow> 'rows document option \<times> extraction_event list" where
  "fetch_data api endpoint evs =
     (case api endpoint of
        Inr data \<Rightarrow> (Some data, evs @ [Fetching endpoint, Fetched endpoint])
      | Inl e \<Rightarrow> (None, evs @ [Fetching endpoint, ErrorFetching endpoint e]))"

text \<open>
  \<open>extract_products\<close>, \<open>extract_users\<close> and \<open>extract_carts\<close> have one shape: fetch;
  if the document is non-empty and holds the collection's key, build the data frame,
  save it as CSV and return it; otherwise return \<open>None\<close>. Building the data frame from
  the rows is pandas work that can itself raise (a column of \<open>columns_to_keep\<close> that no
  row has, a line item without a price); such an exception is not caught anywhere, so
  \<open>frame endpoint rows\<close> is either \<open>Inl\<close> the exception text, which ends the run, or
  \<open>Inr\<close> the frame.
\<close>

definition extract_collection ::
  "(string \<Rightarrow> request_exception + 'rows document) \<Rightarrow> (string \<Rightarrow> 'rows \<Rightarrow> string + 'df)
     \<Rightarrow> string \<Rightarrow> extraction_event list
     \<Rightarrow> string + ('df option \<times> extraction_event list)" where
  "extract_collection api frame endpoint evs =
     (case fetch_data api endpoint evs of
        (None, evs1) \<Rightarrow> Inr (None, evs1)
      | (Some data, evs1) \<Rightarrow>
          (if data \<noteq> [] \<and> map_of data endpoint \<noteq> None
           then (case frame endpoint (the (map_of data endpoint)) of
                   Inl exn \<Rightarrow> Inl exn
                 | Inr df \<Rightarrow> Inr (Some df, evs1 @ [SavedCsv (endpoint @ ''.csv'')]))
           else Inr (None, evs1)))"

definition extract_products where
  "extract_products api frame evs = extract_collection api frame ''products'' evs"

definition extract_users where
  "extract_users api frame evs = extract_collection api frame ''users'' evs"

definition extract_carts where
  "extract_carts api frame evs = extract_collection api frame ''carts'' evs"

text \<open>
  \<open>run_extraction\<close>: the three extractions in order, then \<open>create_sqlite_database\<close>,
  which receives each table or \<open>None\<close> (recorded as a flag per table; the cart items
  table exists exactly when the carts table does and has at least one line item, which
  the flag \<open>has_items\<close> of the frame tells). The database step catches its own
  exceptions, so reaching it is the last thing that can depend on the fetches.
\<close>

definition run_extraction ::
  "(string \<Rightarrow> request_exception + 'rows document) \<Rightarrow> (string \<Rightarrow> 'rows \<Rightarrow> string + 'df)
     \<Rightarrow> ('df \<Rightarrow> bool) \<Rightarrow> string + extraction_event list" where
  "run_extraction api frame has_items =
     (case extract_products api frame [] of
        Inl exn \<Rightarrow> Inl exn
      | Inr (products_df, evs1) \<Rightarrow>
          (case extract_users api frame evs1 of
             Inl exn \<Rightarrow> Inl exn
           | Inr (users_df, evs2) \<Rightarrow>
               (case extract_carts api frame evs2 of
                  Inl exn \<Rightarrow> Inl exn
                | Inr (carts_df, evs3) \<Rightarrow>
                    Inr (evs3 @
                      [CreateDatabase (products_df \<noteq> None) (users_df \<noteq> None)
                         (carts_df \<noteq> None)
                         (case carts_df of None \<Rightarrow> False | Some df \<Rightarrow> has_items df)]))))"

definition collection_ok ::
  "(string \<Rightarrow> request_exception + 'rows document) \<Rightarrow> (string \<Rightarrow> 'rows \<Rightarrow> string + 'df)
     \<Rightarrow> string \<Rightarrow> bool" where
  "collection_ok api frame endpoint =
     (case api endpoint of
        Inl e \<Rightarrow> True
      | Inr data \<Rightarrow>
          (case map_of data endpoint of
             None \<Rightarrow> True
           | Some rows \<Rightarrow> (case frame endpoint rows of Inl exn \<Rightarrow> False | Inr df \<Rightarrow> True)))"

fun is_fetch :: "extraction_event \<Rightarrow> bool" where
  "is_fetch (Fetching e) = True"
| "is_fetch other = False"

text \<open>
  A sample service: the products endpoint answers 503, the other two answer with a
  document holding their collection.
\<close>

definition demo_api :: "string \<Rightarrow> request_exception + nat document" where
  "demo_api ep = (if ep = ''products'' then Inl (HTTPError 503) else Inr [(ep, 30)])"

definition demo_frame :: "string \<Rightarrow> nat \<Rightarrow> string + nat" where
  "demo_frame ep rows = Inr rows"

section \<open>Cart savings\<close>

text \<open>
  \<open>total_savings = total - discountedTotal\<close> and
  \<open>savings_percentage = (total_savings / total * 100).round(2)\<close> are column
  operations on float64 (the totals of the service are decimal numbers, so both columns
  are float64). Float division by zero does not raise: \<open>x / 0\<close> is an infinity for
  \<open>x \<noteq> 0\<close> and NaN for \<open>x = 0\<close>. \<open>savings_percentage_of\<close> is the computation for one
  row, from the row's two float64 values.
\<close>

definition cell_mul :: "cell \<Rightarrow> cell \<Rightarrow> cell" where
  "cell_mul a b =
     (case a of None \<Rightarrow> None | Some x \<Rightarrow> (case b of None \<Rightarrow> None | Some y \<Rightarrow> Some (x * y)))"

definition total_savings_of :: "fnum \<Rightarrow> fnum \<Rightarrow> fnum" where
  "total_savings_of t d = fsub t d"

definition savings_percentage_of :: "fnum \<Rightarrow> fnum \<Rightarrow> fnum" where
  "savings_percentage_of t d =
     np_round 2 (fmul (fdiv (total_savings_of t d) t) (Finite 100))"

definition total_savings :: "cart \<Rightarrow> fnum" where
  "total_savings c = total_savings_of (cell_double (total c)) (cell_double (discountedTotal c))"

definition savings_percentage :: "cart \<Rightarrow> fnum" where
  "savings_percentage c =
     savings_percentage_of (cell_double (total c)) (cell_double (discountedTotal c))"

definition priced_cart :: "rat \<Rightarrow> rat \<Rightarrow> cart" where
  "priced_cart t d =
     \<lparr> cart_id = 1, userId = Some 1, total = Some t, discountedTotal = Some d,
       totalProducts = Some 1, totalQuantity = Some 1 \<rparr>"

section \<open>Cart line items\<close>

text \<open>
  The line items are built from the decoded JSON itself, not from a data frame, so the
  values are JSON values. An object is the Python dictionary, as a list of pairs looked
  up by key. Subscripting raises \<open>KeyError\<close> for an absent key and \<open>TypeError\<close> for a
  value that is no dictionary; \<open>.get\<close> exists on dictionaries only.
\<close>

datatype json = JNull | JNum rat | JStr string | JArr "json list" | JObj "(string \<times> json) list"

datatype py_error =
  KeyError string | TypeError | AttributeError | ColumnsNotInIndex "string list"

definition subscript :: "json \<Rightarrow> string \<Rightarrow> py_error + json" where
  "subscript j k =
     (case j of
        JObj kvs \<Rightarrow> (case map_of kvs k of Some v \<Rightarrow> Inr v | None \<Rightarrow> Inl (KeyError k))
      | other \<Rightarrow> Inl TypeError)"

definition dict_get :: "json \<Rightarrow> string \<Rightarrow> json \<Rightarrow> py_error + json" where
  "dict_get j k dflt =
     (case j of
        JObj kvs \<Rightarrow> Inr (case map_of kvs k of Some v \<Rightarrow> v | None \<Rightarrow> dflt)
      | other \<Rightarrow> Inl AttributeError)"

text \<open>\<open>for product in cart['products']\<close>: what the loop variable ranges over.\<close>

definition iterate :: "json \<Rightarrow> py_error + json list" where
  "iterate j =
     (case j of
        JArr xs \<Rightarrow> Inr xs
      | JObj kvs \<Rightarrow> Inr (map (\<lambda>kv. JStr (fst kv)) kvs)
      | JStr s \<Rightarrow> Inr (map (\<lambda>ch. JStr [ch]) s)
      | other \<Rightarrow> Inl TypeError)"

record cart_item =
  ci_cart_id :: json
  ci_user_id :: json
  ci_product_id :: json
  ci_product_title :: json
  ci_price :: json
  ci_quantity :: json
  ci_total :: json
  ci_discount_percentage :: json
  ci_discounted_price :: json

definition and_then :: "'e + 'a \<Rightarrow> ('a \<Rightarrow> 'e + 'b) \<Rightarrow> 'e + 'b" where
  "and_then r f = (case r of Inl e \<Rightarrow> Inl e | Inr v \<Rightarrow> f v)"

text \<open>The dictionary literal \<open>item = {...}\<close>, its entries evaluated top to bottom.\<close>

definition make_item :: "json \<Rightarrow> json \<Rightarrow> json \<Rightarrow> py_error + cart_item" where
  "make_item cid uid product =
     and_then (subscript product ''id'') (\<lambda>pid.
     and_then (subscript product ''title'') (\<lambda>title.
     and_then (subscript product ''price'') (\<lambda>price.
     and_then (subscript product ''quantity'') (\<lambda>quantity.
     and_then (subscript product ''total'') (\<lambda>line_total.
     and_then (dict_get product ''discountPercentage'' (JNum 0)) (\<lambda>dp.
     and_then (subscript product ''price'') (\<lambda>price_again.
     and_then (dict_get product ''discountedPrice'' price_again) (\<lambda>dprice.
       Inr \<lparr> ci_cart_id = cid, ci_user_id = uid, ci_product_id = pid,
             ci_product_title = title, ci_price = price, ci_quantity = quantity,
             ci_total = line_total, ci_discount_percentage = dp,
             ci_discounted_price = dprice \<rparr>))))))))"

text \<open>The inner loop appends one item per product to \<open>cart_items\<close>.\<close>

fun append_items ::
  "json \<Rightarrow> json \<Rightarrow> json list \<Rightarrow> cart_item list \<Rightarrow> py_error + cart_item list" where
  "append_items cid uid [] acc = Inr acc"
| "append_items cid uid (product # rest) acc =
     and_then (make_item cid uid product) (\<lambda>item. append_items cid uid rest (acc @ [item]))"

text \<open>The outer loop over the carts.\<close>

fun cart_items_loop :: "json list \<Rightarrow> cart_item list \<Rightarrow> py_error + cart_item list" where
  "cart_items_loop [] acc = Inr acc"
| "cart_items_loop (c # rest) acc =
     and_then (subscript c ''id'') (\<lambda>cid.
     and_then (subscript c ''userId'') (\<lambda>uid.
     and_then (subscript c ''products'') (\<lambda>ps.
     and_then (iterate ps) (\<lambda>products.
     and_then (append_items cid uid products acc) (\<lambda>acc1.
       cart_items_loop rest acc1)))))"

text \<open>
  Before the loop, \<open>extract_carts\<close> builds \<open>carts_df = pd.DataFrame(carts)\<close> and selects
  \<open>carts_df[cart_columns]\<close>. A data frame built from a list of dictionaries has the union
  of their keys as columns (a cart without a key gets NaN there), so the selection raises
  \<open>KeyError\<close>, naming the absent columns, exactly when some column of \<open>cart_columns\<close>
  is a key of no cart; the frame of an empty list has no column at all. An element that
  is no dictionary makes the construction or the selection raise as well. The numeric
  coercion, the savings columns and the rounding that follow do not raise.
\<close>

definition cart_columns :: "string list" where
  "cart_columns =
     [''id'', ''userId'', ''total'', ''discountedTotal'', ''totalProducts'', ''totalQuantity'']"

definition is_object :: "json \<Rightarrow> bool" where
  "is_object j = (case j of JObj kvs \<Rightarrow> True | other \<Rightarrow> False)"

definition has_key :: "string \<Rightarrow> json \<Rightarrow> bool" where
  "has_key k j = (case j of JObj kvs \<Rightarrow> map_of kvs k \<noteq> None | other \<Rightarrow> False)"

definition select_cart_columns :: "json list \<Rightarrow> py_error + unit" where
  "select_cart_columns carts =
     (case carts of
        [] \<Rightarrow> Inl (ColumnsNotInIndex cart_columns)
      | c # rest \<Rightarrow>
          if \<not> is_object c then Inl (ColumnsNotInIndex cart_columns)
          else if \<not> list_all is_object rest then Inl AttributeError
          else (case filter (\<lambda>col. \<not> list_ex (has_key col) carts) cart_columns of
                  [] \<Rightarrow> Inr ()
                | missing \<Rightarrow> Inl (ColumnsNotInIndex missing)))"

text \<open>
  The part of \<open>extract_carts\<close> that produces the \<open>cart_items\<close> rows: the frame steps
  above, then the loop.
\<close>

definition extract_cart_items :: "json list \<Rightarrow> py_error + cart_item list" where
  "extract_cart_items carts =
     and_then (select_cart_columns carts) (\<lambda>u. cart_items_loop carts [])"

text \<open>
  For stating the result: the line items of the input in loop order, each with its
  parent cart; the test that a line item carries the five fields the loop reads
  unconditionally; and the test that every column of \<open>cart_columns\<close> is a key of some
  cart.
\<close>

definition columns_present :: "json list \<Rightarrow> bool" where
  "columns_present carts = list_all (\<lambda>col. list_ex (has_key col) carts) cart_columns"

definition field :: "json \<Rightarrow> string \<Rightarrow> json option" where
  "field j k = (case j of JObj kvs \<Rightarrow> map_of kvs k | other \<Rightarrow> None)"

definition products_of :: "json \<Rightarrow> json list" where
  "products_of c = (case field c ''products'' of Some (JArr xs) \<Rightarrow> xs | other \<Rightarrow> [])"

definition line_items :: "json list \<Rightarrow> (json \<times> json) list" where
  "line_items carts = concat (map (\<lambda>c. map (Pair c) (products_of c)) carts)"

definition product_ok :: "json \<Rightarrow> bool" where
  "product_ok p =
     (field p ''id'' \<noteq> None \<and> field p ''title'' \<noteq> None \<and> field p ''price'' \<noteq> None
      \<and> field p ''quantity'' \<noteq> None \<and> field p ''total'' \<noteq> None)"

definition cart_ok :: "json \<Rightarrow> bool" where
  "cart_ok c =
     (field c ''id'' \<noteq> None \<and> field c ''userId'' \<noteq> None
      \<and> (case field c ''products'' of Some (JArr xs) \<Rightarrow> list_all product_ok xs | other \<Rightarrow> False))"

definition line_of :: "json \<Rightarrow> json \<Rightarrow> json \<Rightarrow> cart_item \<Rightarrow> bool" where
  "line_of cid uid p item =
     (ci_cart_id item = cid \<and> ci_user_id item = uid
      \<and> field p ''id'' = Some (ci_product_id item)
      \<and> field p ''price'' = Some (ci_price item)
      \<and> ci_discount_percentage item =
          (case field p ''discountPercentage'' of None \<Rightarrow> JNum 0 | Some v \<Rightarrow> v)
      \<and> ci_discounted_price item =
          (case field p ''discountedPrice'' of None \<Rightarrow> ci_price item | Some v \<Rightarrow> v))"

definition item_of :: "json \<times> json \<Rightarrow> cart_item \<Rightarrow> bool" where
  "item_of cp item =
     (field (fst cp) ''id'' = Some (ci_cart_id item)
      \<and> field (fst cp) ''userId'' = Some (ci_user_id item)
      \<and> field (snd cp) ''id'' = Some (ci_product_id item)
      \<and> field (snd cp) ''price'' = Some (ci_price item)
      \<and> ci_discount_percentage item =
          (case field (snd cp) ''discountPercentage'' of None \<Rightarrow> JNum 0 | Some v \<Rightarrow> v)
      \<and> ci_discounted_price item =
          (case field (snd cp) ''discountedPrice'' of None \<Rightarrow> ci_price item | Some v \<Rightarrow> v))"

definition sample_carts :: "json list" where
  "sample_carts =
     [JObj [(''id'', JNum 1), (''userId'', JNum 33), (''total'', JNum 199),
            (''discountedTotal'', JNum 189), (''totalProducts'', JNum 2),
            (''totalQuantity'', JNum 5),
            (''products'',
             JArr [JObj [(''id'', JNum 168), (''title'', JStr ''Charger''),
                         (''price'', JNum 33), (''quantity'', JNum 3), (''total'', JNum 99)],
                   JObj [(''id'', JNum 78), (''title'', JStr ''Watch''),
                         (''price'', JNum 50), (''quantity'', JNum 2), (''total'', JNum 100),
                         (''discountPercentage'', JNum 10), (''discountedPrice'', JNum 90)]])]]"

section \<open>Category revenue summary\<close>

record product =
  title :: string
  category :: "string option"
  price :: cell
  stock :: cell
  rating :: cell

record category_summary =
  product_count :: int
  avg_price :: cell
  total_stock :: rat
  avg_rating :: cell
  revenue_potential :: rat

text \<open>
  \<open>groupby('category').apply(lambda x: (x['price'] * x['stock']).sum())\<close>: the
  function applied to the group of category \<open>c\<close>, and the resulting series.
\<close>

definition category_revenue :: "product list \<Rightarrow> string \<Rightarrow> rat" where
  "category_revenue ps c =
     nansum (map (\<lambda>x. cell_mul (price x) (stock x)) (group_rows category ps c))"

definition revenue_by_category :: "product list \<Rightarrow> (string \<times> rat) list" where
  "revenue_by_category ps = map (\<lambda>c. (c, category_revenue ps c)) (group_keys category ps)"

text \<open>
  \<open>revenue_data\<close> before sorting: the aggregation rounded to two decimals, then the
  column \<open>revenue_potential\<close> assigned from the series above. The assignment aligns on
  the category index, which both sides share, so each row gets its own category's sum.
\<close>

definition category_row :: "product list \<Rightarrow> string \<Rightarrow> category_summary" where
  "category_row ps c =
     (let g = group_rows category ps c
      in \<lparr> product_count = int (nancount (map price g)),
           avg_price = round_cell 2 (nanmean (map price g)),
           total_stock = round_dec 2 (nansum (map stock g)),
           avg_rating = round_cell 2 (nanmean (map rating g)),
           revenue_potential = category_revenue ps c \<rparr>)"

definition revenue_data :: "product list \<Rightarrow> (string \<times> category_summary) list" where
  "revenue_data ps = map (\<lambda>c. (c, category_row ps c)) (group_keys category ps)"





definition product_row :: "string \<Rightarrow> rat \<Rightarrow> rat \<Rightarrow> rat \<Rightarrow> product" where
  "product_row c p s r =
     \<lparr> title = [], category = Some c, price = Some p, stock = Some s, rating = Some r \<rparr>"

definition spec_products :: "product list" where
  "spec_products = [product_row ''A'' 10 5 4, product_row ''A'' 20 1 3, product_row ''B'' 5 10 5]"


section \<open>Customer age segments\<close>

record user =
  user_id :: int
  age :: cell
  gender :: string

record segment_row =
  customer_count :: nat
  avg_age :: fnum
  percentage :: fnum

text \<open>
  \<open>segment_summary\<close> of \<open>create_customer_segmentation_chart\<close>: users grouped by the
  label of the chart's own \<open>categorize_age\<close>; per group the count and the mean of the
  non-missing ages, rounded to one decimal; then
  \<open>percentage = (customer_count / customer_count.sum() * 100).round(1)\<close>. The counts
  are integers; the division converts them to float64, and the quotient, the product
  with 100 and the three steps of the rounding are float64 operations. (The mean is the
  float64 quotient of the sum of the ages by their count; ages are whole numbers, whose
  sum is exact.)
\<close>

definition age_segment :: "user \<Rightarrow> string option" where
  "age_segment u = Some (segmentation_categorize_age (age u))"

definition segment_count :: "user list \<Rightarrow> string \<Rightarrow> nat" where
  "segment_count users k = nancount (map age (group_rows age_segment users k))"

definition segment_percentage :: "nat \<Rightarrow> nat \<Rightarrow> fnum" where
  "segment_percentage c n =
     np_round 1
       (fmul (fdiv (double_round (of_nat c)) (double_round (of_nat n))) (Finite 100))"

definition segment_summary :: "user list \<Rightarrow> (string \<times> segment_row) list" where
  "segment_summary users =
     (let keys = group_keys age_segment users;
          count_sum = sum_list (map (segment_count users) keys)
      in map (\<lambda>k.
            (k, \<lparr> customer_count = segment_count users k,
                  avg_age =
                    np_round 1
                      (fdiv (double_round (nansum (map age (group_rows age_segment users k))))
                         (double_round (of_nat (segment_count users k)))),
                  percentage = segment_percentage (segment_count users k) count_sum \<rparr>))
          keys)"

definition percentages :: "user list \<Rightarrow> fnum list" where
  "percentages users = map (\<lambda>r. percentage (snd r)) (segment_summary users)"

text \<open>
  The executive summary's \<open>total_customers = len(self.users_df)\<close> and
  \<open>avg_customer_age = self.users_df['age'].mean()\<close>.
\<close>

definition total_customers :: "user list \<Rightarrow> nat" where
  "total_customers users = length users"

definition avg_customer_age :: "user list \<Rightarrow> cell" where
  "avg_customer_age users = nanmean (map age users)"

definition aged :: "rat \<Rightarrow> user" where
  "aged a = \<lparr> user_id = 0, age = Some a, gender = ''female'' \<rparr>"

definition sixteen_users :: "user list" where
  "sixteen_users =
     replicate 3 (aged 20) @ replicate 3 (aged 30) @ replicate 3 (aged 40)
     @ replicate 7 (aged 60)"

definition three_users :: "user list" where
  "three_users = [aged 20, aged 30, \<lparr> user_id = 0, age = None, gender = ''male'' \<rparr>]"

section \<open>Results: customer value cascade\<close>

text \<open>
  Claim C1. The customer value label is decided by a priority cascade over
  \<open>total_spent\<close> and \<open>order_count\<close>: Premium exactly when the spend is at least 1500 and
  there are at least 3 orders; otherwise Valuable exactly when the spend is at least 800
  and there are at least 2 orders; otherwise Regular exactly when the spend is at least
  400 or there are at least 2 orders; otherwise Low-Value. A row with spend 2000 and one
  order is Regular, and a user whose two carts total 900 each gets spend 1800, two orders
  and the label Valuable.
\<close>

theorem customer_value_cascade:
  "(customer_value_segment r = ''Premium Customer'' \<longleftrightarrow>
      1500 \<le> total_spent r \<and> 3 \<le> order_count r)
   \<and> (customer_value_segment r = ''Valuable Customer'' \<longleftrightarrow>
      \<not> (1500 \<le> total_spent r \<and> 3 \<le> order_count r)
      \<and> 800 \<le> total_spent r \<and> 2 \<le> order_count r)
   \<and> (customer_value_segment r = ''Regular Customer'' \<longleftrightarrow>
      \<not> (1500 \<le> total_spent r \<and> 3 \<le> order_count r)
      \<and> \<not> (800 \<le> total_spent r \<and> 2 \<le> order_count r)
      \<and> (400 \<le> total_spent r \<or> 2 \<le> order_count r))
   \<and> (customer_value_segment r = ''Low-Value Customer'' \<longleftrightarrow>
      \<not> (1500 \<le> total_spent r \<and> 3 \<le> order_count r)
      \<and> \<not> (800 \<le> total_spent r \<and> 2 \<le> order_count r)
      \<and> \<not> (400 \<le> total_spent r \<or> 2 \<le> order_count r))
   \<and> customer_value_segment
        \<lparr> total_spent = 2000, avg_order_value = Some 2000, order_count = 1,
          total_items = 1 \<rparr> = ''Regular Customer''
   \<and> customer_metrics [mk_cart 1 7 900, mk_cart 2 7 900] =
        [(7, \<lparr> total_spent = 1800, avg_order_value = Some 900, order_count = 2,
               total_items = 2 \<rparr>)]
   \<and> customer_segments [mk_cart 1 7 900, mk_cart 2 7 900] = [(7, ''Valuable Customer'')]"
proof -
  have cascade: "customer_value_segment r =
      (if 1500 \<le> total_spent r \<and> 3 \<le> order_count r then ''Premium Customer''
       else if 800 \<le> total_spent r \<and> 2 \<le> order_count r then ''Valuable Customer''
       else if 400 \<le> total_spent r \<or> 2 \<le> order_count r then ''Regular Customer''
       else ''Low-Value Customer'')"
    by (simp add: customer_value_segment_def)
  have premium: "customer_value_segment r = ''Premium Customer'' \<longleftrightarrow>
      1500 \<le> total_spent r \<and> 3 \<le> order_count r"
    unfolding cascade by simp
  have valuable: "customer_value_segment r = ''Valuable Customer'' \<longleftrightarrow>
      \<not> (1500 \<le> total_spent r \<and> 3 \<le> order_count r)
      \<and> 800 \<le> total_spent r \<and> 2 \<le> order_count r"
    unfolding cascade by simp
  have regular: "customer_value_segment r = ''Regular Customer'' \<longleftrightarrow>
      \<not> (1500 \<le> total_spent r \<and> 3 \<le> order_count r)
      \<and> \<not> (800 \<le> total_spent r \<and> 2 \<le> order_count r)
      \<and> (400 \<le> total_spent r \<or> 2 \<le> order_count r)"
    unfolding cascade by simp
  have low: "customer_value_segment r = ''Low-Value Customer'' \<longleftrightarrow>
      \<not> (1500 \<le> total_spent r \<and> 3 \<le> order_count r)
      \<and> \<not> (800 \<le> total_spent r \<and> 2 \<le> order_count r)
      \<and> \<not> (400 \<le> total_spent r \<or> 2 \<le> order_count r)"
    unfolding cascade by simp
  have one_order: "customer_value_segment
        \<lparr> total_spent = 2000, avg_order_value = Some 2000, order_count = 1,
          total_items = 1 \<rparr> = ''Regular Customer''"
    by (simp add: customer_value_segment_def)
  have metrics: "customer_metrics [mk_cart 1 7 900, mk_cart 2 7 900] =
        [(7, \<lparr> total_spent = 1800, avg_order_value = Some 900, order_count = 2,
               total_items = 2 \<rparr>)]"
    by code_simp
  have two_carts:
    "customer_segments [mk_cart 1 7 900, mk_cart 2 7 900] = [(7, ''Valuable Customer'')]"
    by code_simp
  from premium valuable regular low one_order metrics two_carts show ?thesis
    by blast
qed

section \<open>Results: age segmentation\<close>

text \<open>
  Both \<open>categorize_age\<close> functions send every non-missing age to the segment the
  specification names, with 25 and 35 in Millennials and 36 and 50 in Gen X.
\<close>

lemma categorize_age_present:
  "categorize_age (Some a) =
     (if a < 25 then ''Gen Z (Under 25)''
      else if a \<le> 35 then ''Millennials (25-35)''
      else if 36 \<le> a \<and> a \<le> 50 then ''Gen X (36-50)''
      else ''Boomers (50+)'')"
  by (simp add: categorize_age_def nan_lt_def nan_le_def nan_ge_def)

lemma segmentation_categorize_age_present:
  "segmentation_categorize_age (Some a) = categorize_age (Some a)"
  by (simp add: segmentation_categorize_age_def categorize_age_def)

text \<open>
  Claim C2. Every place that segments users by age is claimed to agree on the
  boundaries, with age 25 in Millennials. The two \<open>categorize_age\<close> functions do; the
  dashboard's \<open>pd.cut\<close> does not: its first interval is (0, 25], so a user aged exactly
  25 is counted under the label \<open>Gen Z (<25)\<close>, and a user aged exactly 35 stays in
  Millennials while 36 is the first age of \<open>Gen X (35-50)\<close>; an age above 100 gets no
  bin at all.
\<close>

theorem dashboard_age_bin_at_25:
  "categorize_age (Some 25) = ''Millennials (25-35)''
   \<and> segmentation_categorize_age (Some 25) = ''Millennials (25-35)''
   \<and> dashboard_age_bin (Some 25) = Some ''Gen Z (<25)''
   \<and> dashboard_age_bin (Some 101) = None
   \<and> categorize_age (Some 101) = ''Boomers (50+)''"
  by (simp add: categorize_age_def segmentation_categorize_age_def dashboard_age_bin_def
      nan_lt_def nan_le_def nan_ge_def nan_gt_def)

text \<open>
  Claim C5. A missing age is claimed to be labelled \<open>Unknown\<close> wherever ages are
  classified. The extractor's \<open>categorize_age\<close> does so; the segmentation chart's own
  \<open>categorize_age\<close> has no test for a missing value, every comparison with NaN is
  false, and the chain falls through to its last branch: the user is labelled
  \<open>Boomers (50+)\<close>. (The dashboard's binning gives such a user no bin.) The other half
  of the claim holds: the mean age skips the missing age and the customer total counts
  the user, as for two users aged 20 and 30 and one without an age.
\<close>

theorem segmentation_missing_age_is_boomers:
  "categorize_age None = ''Unknown''
   \<and> segmentation_categorize_age None = ''Boomers (50+)''
   \<and> dashboard_age_bin None = None
   \<and> total_customers three_users = 3
   \<and> avg_customer_age three_users = Some 25"
proof -
  have labels: "categorize_age None = ''Unknown''"
    "segmentation_categorize_age None = ''Boomers (50+)''"
    "dashboard_age_bin None = None"
    by (simp_all add: categorize_age_def segmentation_categorize_age_def dashboard_age_bin_def
        nan_lt_def nan_le_def nan_ge_def nan_gt_def)
  have total: "total_customers three_users = 3"
    by (simp add: total_customers_def three_users_def)
  have mean: "avg_customer_age three_users = Some 25"
    by (simp add: avg_customer_age_def three_users_def aged_def nanmean_def)
  from labels total mean show ?thesis by simp
qed

section \<open>Results: chart generation\<close>

lemma takeWhile_all_charts:
  "takeWhile (\<lambda>c. c \<noteq> k) all_charts =
    (case k of RevenueByCategory \<Rightarrow> []
     | CustomerSegmentation \<Rightarrow> [RevenueByCategory]
     | SalesPerformance \<Rightarrow> [RevenueByCategory, CustomerSegmentation]
     | ExecutiveSummary \<Rightarrow> [RevenueByCategory, CustomerSegmentation, SalesPerformance]
     | PortfolioShowcase \<Rightarrow>
         [RevenueByCategory, CustomerSegmentation, SalesPerformance, ExecutiveSummary])"
  by (cases k) (simp_all add: all_charts_def)

lemma try_charts_until_failure:
  assumes "raises k = Some msg"
    and "\<forall>c \<in> set cs. raises c = None"
  shows "try_charts raises (cs @ k # rest) s =
     (Some msg,
      s\<lparr>attempted := attempted s @ cs @ [k],
        rendered := rendered s @ cs,
        console := console s @ map (\<lambda>c. ''Chart saved: '' @ chart_file c) cs\<rparr>)"
  using assms(2)
proof (induction cs arbitrary: s)
  case Nil
  then show ?case using assms(1) by (simp add: create_chart_def)
next
  case (Cons c cs)
  then show ?case by (simp add: create_chart_def)
qed

lemma all_charts_split:
  "\<exists>rest. all_charts = takeWhile (\<lambda>c. c \<noteq> k) all_charts @ k # rest"
  by (cases k) (simp_all add: all_charts_def)

text \<open>
  Claim C4, as stated, fails on the code: the five chart functions run inside one
  \<open>try\<close>, so the first exception leaves the block. When the first chart raises, no
  other chart function is called and nothing is rendered.
\<close>

theorem first_chart_failure_skips_the_rest:
  "fst (generate_all_visualizations
         (\<lambda>c. if c = RevenueByCategory then Some ''no such table: products'' else None)
         fresh_dashboard) = None
   \<and> attempted (snd (generate_all_visualizations
         (\<lambda>c. if c = RevenueByCategory then Some ''no such table: products'' else None)
         fresh_dashboard)) = [RevenueByCategory]
   \<and> rendered (snd (generate_all_visualizations
         (\<lambda>c. if c = RevenueByCategory then Some ''no such table: products'' else None)
         fresh_dashboard)) = []
   \<and> CustomerSegmentation \<notin> set (attempted (snd (generate_all_visualizations
         (\<lambda>c. if c = RevenueByCategory then Some ''no such table: products'' else None)
         fresh_dashboard)))"
  by (simp add: generate_all_visualizations_def all_charts_def create_chart_def
      fresh_dashboard_def)

text \<open>
  Claim C4, amended. When chart \<open>k\<close> raises and the charts before it do not, the run
  has called exactly the charts up to \<open>k\<close>, rendered exactly those before \<open>k\<close>, printed
  the error once, closed the connection and returned \<open>None\<close>: the charts after \<open>k\<close> are
  not attempted.
\<close>

theorem chart_failure_aborts_run:
  assumes "raises k = Some msg"
      and "\<forall>c \<in> set (takeWhile (\<lambda>c. c \<noteq> k) all_charts). raises c = None"
  shows "generate_all_visualizations raises s =
     (None,
      s\<lparr>attempted := attempted s @ takeWhile (\<lambda>c. c \<noteq> k) all_charts @ [k],
        rendered := rendered s @ takeWhile (\<lambda>c. c \<noteq> k) all_charts,
        console := console s
          @ [''Starting Sales Performance Analytics Visualization Generation'']
          @ map (\<lambda>c. ''Chart saved: '' @ chart_file c) (takeWhile (\<lambda>c. c \<noteq> k) all_charts)
          @ [''Error generating visualizations: '' @ msg],
        conn_open := False\<rparr>)"
proof -
  obtain rest where split: "all_charts = takeWhile (\<lambda>c. c \<noteq> k) all_charts @ k # rest"
    using all_charts_split by blast
  let ?cs = "takeWhile (\<lambda>c. c \<noteq> k) all_charts"
  let ?s0 = "s\<lparr>console := console s @
                 [''Starting Sales Performance Analytics Visualization Generation'']\<rparr>"
  have "try_charts raises all_charts ?s0 = try_charts raises (?cs @ k # rest) ?s0"
    using split by simp
  also have "\<dots> = (Some msg,
      ?s0\<lparr>attempted := attempted ?s0 @ ?cs @ [k],
        rendered := rendered ?s0 @ ?cs,
        console := console ?s0 @ map (\<lambda>c. ''Chart saved: '' @ chart_file c) ?cs\<rparr>)"
    by (rule try_charts_until_failure [OF assms])
  finally show ?thesis
    by (simp add: generate_all_visualizations_def)
qed

theorem chart_failure_aborts_run_witness:
  "fst (generate_all_visualizations
         (\<lambda>c. if c = SalesPerformance then Some ''boom'' else None) fresh_dashboard) = None
   \<and> attempted (snd (generate_all_visualizations
         (\<lambda>c. if c = SalesPerformance then Some ''boom'' else None) fresh_dashboard)) =
       [RevenueByCategory, CustomerSegmentation, SalesPerformance]
   \<and> rendered (snd (generate_all_visualizations
         (\<lambda>c. if c = SalesPerformance then Some ''boom'' else None) fresh_dashboard)) =
       [RevenueByCategory, CustomerSegmentation]"
  using chart_failure_aborts_run
    [of "\<lambda>c. if c = SalesPerformance then Some ''boom'' else None" SalesPerformance "''boom''"
        fresh_dashboard]
  by (simp add: takeWhile_all_charts fresh_dashboard_def)

section \<open>Results: extraction run\<close>

lemma extract_collection_ok:
  assumes "collection_ok api frame ep"
  shows "\<exists>df rest. extract_collection api frame ep evs = Inr (df, evs @ Fetching ep # rest)
     \<and> filter is_fetch rest = []
     \<and> (df \<noteq> None \<longleftrightarrow> (\<exists>data rows. api ep = Inr data \<and> map_of data ep = Some rows))
     \<and> (\<forall>e. api ep = Inl e \<longrightarrow> rest = [ErrorFetching ep e])"
proof (cases "api ep")
  case (Inl e)
  then show ?thesis
    by (simp add: extract_collection_def fetch_data_def)
next
  case (Inr data)
  show ?thesis
  proof (cases "map_of data ep")
    case None
    with Inr show ?thesis
      by (simp add: extract_collection_def fetch_data_def)
  next
    case (Some rows)
    then have ne: "data \<noteq> []" by auto
    from assms Inr Some obtain df where "frame ep rows = Inr df"
      by (auto simp: collection_ok_def split: sum.splits)
    with Inr Some ne show ?thesis
      by (simp add: extract_collection_def fetch_data_def)
  qed
qed

text \<open>
  Claim C7. A fetch failure of one collection (connection error, timeout, status outside
  2xx) is logged, makes that collection's extraction return nothing, and does not stop
  the run: whenever no data frame construction raises, all three collections are
  fetched in the order products, users, carts, the database step is reached, and it
  receives a table exactly for the collections whose fetch succeeded and whose document
  holds the collection. In particular, after the products fetch fails, users and carts
  are still fetched.
\<close>

theorem fetch_failure_does_not_block_run:
  assumes "collection_ok api frame ''products''"
      and "collection_ok api frame ''users''"
      and "collection_ok api frame ''carts''"
  shows "\<exists>evs p u c i.
      run_extraction api frame has_items = Inr (evs @ [CreateDatabase p u c i])
    \<and> filter is_fetch evs = [Fetching ''products'', Fetching ''users'', Fetching ''carts'']
    \<and> (p \<longleftrightarrow> (\<exists>data rows. api ''products'' = Inr data \<and> map_of data ''products'' = Some rows))
    \<and> (u \<longleftrightarrow> (\<exists>data rows. api ''users'' = Inr data \<and> map_of data ''users'' = Some rows))
    \<and> (c \<longleftrightarrow> (\<exists>data rows. api ''carts'' = Inr data \<and> map_of data ''carts'' = Some rows))
    \<and> (\<forall>e. api ''products'' = Inl e \<longrightarrow> \<not> p \<and> ErrorFetching ''products'' e \<in> set evs)
    \<and> (\<forall>e. api ''users'' = Inl e \<longrightarrow> \<not> u \<and> ErrorFetching ''users'' e \<in> set evs)
    \<and> (\<forall>e. api ''carts'' = Inl e \<longrightarrow> \<not> c \<and> \<not> i \<and> ErrorFetching ''carts'' e \<in> set evs)"
proof -
  obtain pdf r1 where
    p: "extract_collection api frame ''products'' [] = Inr (pdf, [] @ Fetching ''products'' # r1)"
      "filter is_fetch r1 = []"
      "pdf \<noteq> None \<longleftrightarrow> (\<exists>data rows. api ''products'' = Inr data \<and> map_of data ''products'' = Some rows)"
      "\<forall>e. api ''products'' = Inl e \<longrightarrow> r1 = [ErrorFetching ''products'' e]"
    using extract_collection_ok [OF assms(1), of "[]"] by blast
  let ?e1 = "Fetching ''products'' # r1"
  obtain udf r2 where
    u: "extract_collection api frame ''users'' ?e1 = Inr (udf, ?e1 @ Fetching ''users'' # r2)"
      "filter is_fetch r2 = []"
      "udf \<noteq> None \<longleftrightarrow> (\<exists>data rows. api ''users'' = Inr data \<and> map_of data ''users'' = Some rows)"
      "\<forall>e. api ''users'' = Inl e \<longrightarrow> r2 = [ErrorFetching ''users'' e]"
    using extract_collection_ok [OF assms(2), of ?e1] by blast
  let ?e2 = "?e1 @ Fetching ''users'' # r2"
  obtain cdf r3 where
    c: "extract_collection api frame ''carts'' ?e2 = Inr (cdf, ?e2 @ Fetching ''carts'' # r3)"
      "filter is_fetch r3 = []"
      "cdf \<noteq> None \<longleftrightarrow> (\<exists>data rows. api ''carts'' = Inr data \<and> map_of data ''carts'' = Some rows)"
      "\<forall>e. api ''carts'' = Inl e \<longrightarrow> r3 = [ErrorFetching ''carts'' e]"
    using extract_collection_ok [OF assms(3), of ?e2] by blast
  let ?e3 = "?e2 @ Fetching ''carts'' # r3"
  let ?i = "case cdf of None \<Rightarrow> False | Some df \<Rightarrow> has_items df"
  have run: "run_extraction api frame has_items =
      Inr (?e3 @ [CreateDatabase (pdf \<noteq> None) (udf \<noteq> None) (cdf \<noteq> None) ?i])"
    using p(1) u(1) c(1)
    by (simp add: run_extraction_def extract_products_def extract_users_def extract_carts_def)
  have fetches: "filter is_fetch ?e3 =
      [Fetching ''products'', Fetching ''users'', Fetching ''carts'']"
    using p(2) u(2) c(2) by simp
  have pe: "\<forall>e. api ''products'' = Inl e \<longrightarrow> \<not> (pdf \<noteq> None) \<and> ErrorFetching ''products'' e \<in> set ?e3"
    using p(3) p(4) by auto
  have ue: "\<forall>e. api ''users'' = Inl e \<longrightarrow> \<not> (udf \<noteq> None) \<and> ErrorFetching ''users'' e \<in> set ?e3"
    using u(3) u(4) by auto
  have ce: "\<forall>e. api ''carts'' = Inl e \<longrightarrow> \<not> (cdf \<noteq> None) \<and> \<not> ?i \<and> ErrorFetching ''carts'' e \<in> set ?e3"
    using c(3) c(4) by auto
  from run fetches p(3) u(3) c(3) pe ue ce show ?thesis
    by blast
qed

theorem fetch_failure_does_not_block_run_witness:
  "run_extraction demo_api demo_frame (\<lambda>df. 0 < df) =
     Inr [Fetching ''products'', ErrorFetching ''products'' (HTTPError 503),
          Fetching ''users'', Fetched ''users'', SavedCsv ''users.csv'',
          Fetching ''carts'', Fetched ''carts'', SavedCsv ''carts.csv'',
          CreateDatabase False True True True]
   \<and> (\<exists>evs p u c i.
        run_extraction demo_api demo_frame (\<lambda>df. 0 < df) = Inr (evs @ [CreateDatabase p u c i])
        \<and> filter is_fetch evs = [Fetching ''products'', Fetching ''users'', Fetching ''carts'']
        \<and> \<not> p \<and> u \<and> c)"
proof -
  have ok: "collection_ok demo_api demo_frame ''products''"
    "collection_ok demo_api demo_frame ''users''"
    "collection_ok demo_api demo_frame ''carts''"
    by (simp_all add: collection_ok_def demo_api_def demo_frame_def)
  have run: "run_extraction demo_api demo_frame (\<lambda>df. 0 < df) =
     Inr [Fetching ''products'', ErrorFetching ''products'' (HTTPError 503),
          Fetching ''users'', Fetched ''users'', SavedCsv ''users.csv'',
          Fetching ''carts'', Fetched ''carts'', SavedCsv ''carts.csv'',
          CreateDatabase False True True True]"
    by (simp add: run_extraction_def extract_products_def extract_users_def extract_carts_def
        extract_collection_def fetch_data_def demo_api_def demo_frame_def)
  from fetch_failure_does_not_block_run [OF ok, of "\<lambda>df. 0 < df"]
  obtain evs p u c i where
    h: "run_extraction demo_api demo_frame (\<lambda>df. 0 < df) = Inr (evs @ [CreateDatabase p u c i])"
      "filter is_fetch evs = [Fetching ''products'', Fetching ''users'', Fetching ''carts'']"
      "p \<longleftrightarrow> (\<exists>data rows. demo_api ''products'' = Inr data \<and> map_of data ''products'' = Some rows)"
      "u \<longleftrightarrow> (\<exists>data rows. demo_api ''users'' = Inr data \<and> map_of data ''users'' = Some rows)"
      "c \<longleftrightarrow> (\<exists>data rows. demo_api ''carts'' = Inr data \<and> map_of data ''carts'' = Some rows)"
    by blast
  have "\<not> p" using h(3) by (simp add: demo_api_def)
  moreover have "u" using h(4) by (simp add: demo_api_def)
  moreover have "c" using h(5) by (simp add: demo_api_def)
  ultimately show ?thesis using run h(1,2) by blast
qed

section \<open>Results: cart line items\<close>

lemma product_ok_obj:
  assumes "product_ok p"
  obtains kvs where "p = JObj kvs"
  using assms by (cases p) (simp_all add: product_ok_def field_def)

lemma make_item_ok:
  assumes "product_ok p"
  shows "\<exists>item. make_item cid uid p = Inr item \<and> line_of cid uid p item"
proof -
  from assms obtain kvs where p: "p = JObj kvs" by (rule product_ok_obj)
  from assms p obtain a b c d e where
    "map_of kvs ''id'' = Some a" "map_of kvs ''title'' = Some b"
    "map_of kvs ''price'' = Some c" "map_of kvs ''quantity'' = Some d"
    "map_of kvs ''total'' = Some e"
    by (auto simp: product_ok_def field_def)
  then show ?thesis
    by (auto simp: p make_item_def and_then_def subscript_def dict_get_def field_def
        line_of_def split: option.splits)
qed

lemma append_items_ok:
  assumes "list_all product_ok ps"
  shows "\<exists>items. append_items cid uid ps acc = Inr (acc @ items)
     \<and> list_all2 (line_of cid uid) ps items"
  using assms
proof (induction ps arbitrary: acc)
  case Nil
  then show ?case by simp
next
  case (Cons p ps)
  then have "product_ok p" and rest: "list_all product_ok ps" by simp_all
  from make_item_ok [OF \<open>product_ok p\<close>, of cid uid] obtain item where
    item: "make_item cid uid p = Inr item" and props: "line_of cid uid p item"
    by blast
  from Cons.IH [OF rest, of "acc @ [item]"] obtain items where
    items: "append_items cid uid ps (acc @ [item]) = Inr ((acc @ [item]) @ items)" and
    rel: "list_all2 (line_of cid uid) ps items"
    by blast
  have "append_items cid uid (p # ps) acc = Inr (acc @ item # items)"
    using item items by (simp add: and_then_def)
  moreover have "list_all2 (line_of cid uid) (p # ps) (item # items)"
    using props rel by simp
  ultimately show ?case by blast
qed

lemma cart_ok_parts:
  assumes "cart_ok c"
  obtains kvs cid uid ps where "c = JObj kvs" "map_of kvs ''id'' = Some cid"
    "map_of kvs ''userId'' = Some uid" "map_of kvs ''products'' = Some (JArr ps)"
    "list_all product_ok ps"
proof (cases c)
  case (JObj kvs)
  with assms obtain cid uid where ids: "map_of kvs ''id'' = Some cid"
      "map_of kvs ''userId'' = Some uid"
    by (auto simp: cart_ok_def field_def)
  from assms JObj obtain ps where "map_of kvs ''products'' = Some (JArr ps)"
      "list_all product_ok ps"
    by (auto simp: cart_ok_def field_def split: option.splits json.splits)
  with JObj ids show ?thesis using that by blast
qed (use assms in \<open>simp_all add: cart_ok_def field_def\<close>)

lemma line_of_item_of:
  assumes "field c ''id'' = Some cid" and "field c ''userId'' = Some uid"
    and "line_of cid uid p item"
  shows "item_of (c, p) item"
  using assms by (simp add: item_of_def line_of_def)

lemma cart_items_loop_ok:
  assumes "list_all cart_ok carts"
  shows "\<exists>items. cart_items_loop carts acc = Inr (acc @ items)
     \<and> list_all2 item_of (line_items carts) items"
  using assms
proof (induction carts arbitrary: acc)
  case Nil
  then show ?case by (simp add: line_items_def)
next
  case (Cons c carts)
  then have "cart_ok c" and rest: "list_all cart_ok carts" by simp_all
  from \<open>cart_ok c\<close> obtain kvs cid uid ps where
    c: "c = JObj kvs" and cid: "map_of kvs ''id'' = Some cid" and
    uid: "map_of kvs ''userId'' = Some uid" and
    ps: "map_of kvs ''products'' = Some (JArr ps)" and ok: "list_all product_ok ps"
    by (rule cart_ok_parts)
  from append_items_ok [OF ok, of cid uid acc] obtain items1 where
    a1: "append_items cid uid ps acc = Inr (acc @ items1)" and
    r1: "list_all2 (line_of cid uid) ps items1"
    by blast
  from Cons.IH [OF rest, of "acc @ items1"] obtain items2 where
    a2: "cart_items_loop carts (acc @ items1) = Inr ((acc @ items1) @ items2)" and
    r2: "list_all2 item_of (line_items carts) items2"
    by blast
  have run: "cart_items_loop (c # carts) acc = Inr (acc @ items1 @ items2)"
    using c cid uid ps a1 a2
    by (simp add: and_then_def subscript_def iterate_def)
  have fc: "field c ''id'' = Some cid" "field c ''userId'' = Some uid"
    using c cid uid by (simp_all add: field_def)
  have "list_all2 (\<lambda>p item. item_of (c, p) item) ps items1"
    using r1 by (rule list_all2_mono) (rule line_of_item_of [OF fc])
  then have "list_all2 item_of (map (Pair c) ps) items1"
    by (simp add: list_all2_map1)
  moreover have "line_items (c # carts) = map (Pair c) ps @ line_items carts"
    using c ps by (simp add: line_items_def products_of_def field_def)
  ultimately have "list_all2 item_of (line_items (c # carts)) (items1 @ items2)"
    using r2 by (simp add: list_all2_appendI)
  with run show ?case by blast
qed

text \<open>
  Claim C10. For carts that each have an id, a user id and a products array, whose line
  items carry the fields the loop reads unconditionally (id, title, price, quantity,
  total), and among which every column of \<open>cart_columns\<close> occurs, the extraction does
  not raise and returns one row per line item, in order, none dropped; each row has its parent cart's id and user id; a line item without
  \<open>discountPercentage\<close> gets discount percentage 0, and one without \<open>discountedPrice\<close>
  gets its unit price as discounted price.
\<close>

lemma select_cart_columns_ok:
  assumes "list_all cart_ok carts" and "columns_present carts"
  shows "select_cart_columns carts = Inr ()"
proof (cases carts)
  case Nil
  with assms(2) show ?thesis
    by (simp add: columns_present_def cart_columns_def)
next
  case (Cons c rest)
  have "is_object c" if "cart_ok c" for c
    using that by (rule cart_ok_parts) (simp add: is_object_def)
  then have obj: "list_all is_object carts"
    using assms(1) by (simp add: list_all_iff)
  have "filter (\<lambda>col. \<not> list_ex (has_key col) carts) cart_columns = []"
    using assms(2) by (simp add: columns_present_def list_all_iff filter_empty_conv)
  with obj Cons show ?thesis
    by (simp add: select_cart_columns_def)
qed

theorem cart_items_defaults:
  assumes "list_all cart_ok carts" and "columns_present carts"
  shows "\<exists>items. extract_cart_items carts = Inr items
     \<and> list_all2 item_of (line_items carts) items
     \<and> length items = length (line_items carts)"
proof -
  from cart_items_loop_ok [OF assms(1), of "[]"] obtain items where
    "cart_items_loop carts [] = Inr ([] @ items)" "list_all2 item_of (line_items carts) items"
    by blast
  then show ?thesis
    using select_cart_columns_ok [OF assms]
    by (auto simp: extract_cart_items_def and_then_def dest: list_all2_lengthD)
qed

theorem cart_items_defaults_witness:
  "list_all cart_ok sample_carts
   \<and> columns_present sample_carts
   \<and> length (line_items sample_carts) = 2
   \<and> (\<exists>items. extract_cart_items sample_carts = Inr items
        \<and> list_all2 item_of (line_items sample_carts) items
        \<and> length items = 2)
   \<and> map (\<lambda>i. (ci_cart_id i, ci_user_id i, ci_discount_percentage i, ci_discounted_price i))
        (projr (extract_cart_items sample_carts)) =
      [(JNum 1, JNum 33, JNum 0, JNum 33), (JNum 1, JNum 33, JNum 10, JNum 90)]"
proof -
  have ok: "list_all cart_ok sample_carts"
    by (simp add: sample_carts_def cart_ok_def product_ok_def field_def)
  have cols: "columns_present sample_carts"
    by (simp add: sample_carts_def columns_present_def cart_columns_def has_key_def)
  have len: "length (line_items sample_carts) = 2"
    by (simp add: sample_carts_def line_items_def products_of_def field_def)
  have rows:
    "map (\<lambda>i. (ci_cart_id i, ci_user_id i, ci_discount_percentage i, ci_discounted_price i))
        (projr (extract_cart_items sample_carts)) =
      [(JNum 1, JNum 33, JNum 0, JNum 33), (JNum 1, JNum 33, JNum 10, JNum 90)]"
    by (simp add: extract_cart_items_def select_cart_columns_def cart_columns_def
        is_object_def has_key_def sample_carts_def and_then_def subscript_def
        iterate_def make_item_def dict_get_def)
  from cart_items_defaults [OF ok cols] len ok cols rows show ?thesis by auto
qed

section \<open>Results: float64 rounding\<close>

lemma pow2_powi: "pow2 e = 2 powi e"
  by (simp add: pow2_def power_int_def power_one_over [symmetric] inverse_eq_divide)

lemma pow2_pos: "0 < pow2 e"
  by (simp add: pow2_powi)

lemma pow2_mono: "e \<le> e' \<Longrightarrow> pow2 e \<le> pow2 e'"
  unfolding pow2_powi by (rule power_int_increasing) simp_all

lemma pow2_strict_mono: "e < e' \<Longrightarrow> pow2 e < pow2 e'"
  unfolding pow2_powi by (rule power_int_strict_increasing) simp_all

lemma pow2_less_imp: "pow2 e \<le> x \<Longrightarrow> x < pow2 e' \<Longrightarrow> e < e'"
  using pow2_mono [of e' e] by (cases "e < e'") auto

lemma pow2_nat: "pow2 (int n) = 2 ^ n"
  by (simp add: pow2_def)

lemma pow2_half: "pow2 e / 2 = pow2 (e - 1)"
  by (simp add: pow2_powi power_int_diff)

lemma floor_log2_le:
  assumes "0 < x"
  shows "pow2 (floor_log2 x) \<le> x"
proof -
  obtain p q where pq: "quotient_of x = (p, q)" by (cases "quotient_of x")
  then have q: "0 < q" by (rule quotient_of_denom_pos)
  have x: "x = of_int p / of_int q" using pq by (rule quotient_of_div)
  with assms q have p: "0 < p"
    by (simp add: zero_less_divide_iff)
  define k where "k = bitlen p - bitlen q"
  show ?thesis
  proof (cases "pow2 k \<le> x")
    case True
    then show ?thesis by (simp add: floor_log2_def pq k_def Let_def)
  next
    case False
    have bp: "1 \<le> bitlen p" using p by (simp add: bitlen_alt_def)
    have bq: "1 \<le> bitlen q" using q by (simp add: bitlen_alt_def)
    have "(2::int) ^ nat (bitlen p - 1) \<le> p" using bitlen_bounds [OF p] by simp
    then have "rat_of_int (2 ^ nat (bitlen p - 1)) \<le> of_int p"
      by (simp only: of_int_le_iff)
    then have lo: "pow2 (bitlen p - 1) \<le> of_int p"
      using bp by (simp add: pow2_def)
    have "q < 2 ^ nat (bitlen q)" using bitlen_bounds [OF q] by simp
    then have "rat_of_int q < of_int (2 ^ nat (bitlen q))"
      by (simp only: of_int_less_iff)
    then have hi: "of_int q < pow2 (bitlen q)"
      using bq by (simp add: pow2_def)
    have "pow2 (k - 1) * of_int q \<le> pow2 (k - 1) * pow2 (bitlen q)"
      using hi pow2_pos [of "k - 1"] by simp
    also have "\<dots> = pow2 (bitlen p - 1)"
      by (simp add: pow2_powi k_def power_int_add [symmetric])
    also have "\<dots> \<le> of_int p" by (rule lo)
    finally have "pow2 (k - 1) \<le> of_int p / of_int q"
      using q by (simp add: pos_le_divide_eq)
    then have "pow2 (k - 1) \<le> x"
      by (simp only: x)
    moreover from False have "floor_log2 x = k - 1"
      by (simp add: floor_log2_def pq k_def Let_def)
    ultimately show ?thesis by simp
  qed
qed

lemma floor_log2_less:
  assumes "0 < x" and "x < pow2 e"
  shows "floor_log2 x < e"
  using floor_log2_le [OF assms(1)] assms(2) by (rule pow2_less_imp)

lemma rint_of_int [simp]: "rint (of_int k) = k"
  by (simp add: rint_def)

lemma rint_bounds: "\<lfloor>x\<rfloor> \<le> rint x \<and> rint x \<le> \<lfloor>x\<rfloor> + 1"
  by (simp add: rint_def Let_def)

lemma rint_nonneg: "0 \<le> x \<Longrightarrow> 0 \<le> rint x"
  by (auto simp: rint_def Let_def)

lemma rint_nonpos: "x \<le> 0 \<Longrightarrow> rint x \<le> 0"
proof -
  assume x: "x \<le> 0"
  show ?thesis
  proof (cases "x = 0")
    case True
    then show ?thesis by (simp add: rint_def)
  next
    case False
    with x have "x < 0" by simp
    then have "\<lfloor>x\<rfloor> \<le> - 1" by (simp add: floor_le_iff)
    then show ?thesis by (auto simp: rint_def Let_def)
  qed
qed

lemma rint_ge_one: "1 \<le> x \<Longrightarrow> 1 \<le> rint x"
proof -
  assume "1 \<le> x"
  then have "1 \<le> \<lfloor>x\<rfloor>" by (simp add: le_floor_iff)
  then show ?thesis by (auto simp: rint_def Let_def)
qed

lemma rint_le_minus_one: "x \<le> - 1 \<Longrightarrow> rint x \<le> - 1"
proof -
  assume x: "x \<le> - 1"
  then have f: "\<lfloor>x\<rfloor> \<le> - 1" by (simp add: floor_le_iff)
  show ?thesis
  proof (cases "\<lfloor>x\<rfloor> = - 1")
    case True
    then have "- 1 \<le> x" by (metis of_int_floor_le of_int_minus of_int_1)
    with x have "x = of_int (- 1)" by simp
    then have "rint x = - 1" by (simp only: rint_of_int)
    then show ?thesis by simp
  next
    case False
    with f have "\<lfloor>x\<rfloor> \<le> - 2" by linarith
    then show ?thesis using rint_bounds [of x] by linarith
  qed
qed

lemma rint_error: "\<bar>of_int (rint x) - x\<bar> \<le> 1 / 2"
proof -
  define f where "f = \<lfloor>x\<rfloor>"
  define d where "d = x - of_int f"
  have d0: "0 \<le> d" and d1: "d < 1"
    unfolding d_def f_def by linarith+
  have r: "rint x = (if d < 1 / 2 then f else if 1 / 2 < d then f + 1
                     else if even f then f else f + 1)"
    by (simp add: rint_def Let_def f_def d_def)
  consider (down) "rint x = f" "d \<le> 1 / 2" | (up) "rint x = f + 1" "1 / 2 \<le> d"
  proof (cases "d < 1 / 2")
    case True
    with r have "rint x = f" "d \<le> 1 / 2" by simp_all
    then show ?thesis by (rule down)
  next
    case False
    note nlt = this
    show ?thesis
    proof (cases "1 / 2 < d")
      case True
      with r nlt have "rint x = f + 1" "1 / 2 \<le> d" by simp_all
      then show ?thesis by (rule up)
    next
      case False
      with nlt have half: "d \<le> 1 / 2" "1 / 2 \<le> d" by simp_all
      show ?thesis
      proof (cases "even f")
        case True
        with r nlt False have "rint x = f" by simp
        then show ?thesis using half(1) by (rule down)
      next
        case odd: False
        with r nlt False have "rint x = f + 1" by simp
        then show ?thesis using half(2) by (rule up)
      qed
    qed
  qed
  then show ?thesis
  proof cases
    case down
    have "of_int (rint x) - x = - d"
      by (simp add: down(1) d_def)
    with d0 down(2) show ?thesis by simp
  next
    case up
    have "of_int (rint x) - x = 1 - d"
      by (simp add: up(1) d_def)
    with d1 up(2) show ?thesis by simp
  qed
qed

lemma round_to_exp_error: "\<bar>round_to_exp e x - x\<bar> \<le> pow2 e / 2"
proof -
  define z where "z = x / pow2 e"
  have pos: "0 < pow2 e" by (rule pow2_pos)
  have x: "x = z * pow2 e" using pos by (simp add: z_def)
  have "round_to_exp e x - x = (of_int (rint z) - z) * pow2 e"
    by (simp add: round_to_exp_def z_def [symmetric] x algebra_simps)
  then have "\<bar>round_to_exp e x - x\<bar> = \<bar>of_int (rint z) - z\<bar> * pow2 e"
    using pos by (simp add: abs_mult)
  also have "\<dots> \<le> (1 / 2) * pow2 e"
    using rint_error [of z] pos by (intro mult_right_mono) simp_all
  finally show ?thesis by simp
qed

lemma round_to_exp_nonneg: "0 \<le> x \<Longrightarrow> 0 \<le> round_to_exp e x"
  using pow2_pos [of e] by (simp add: round_to_exp_def rint_nonneg)

lemma round_to_exp_nonpos: "x \<le> 0 \<Longrightarrow> round_to_exp e x \<le> 0"
  using pow2_pos [of e]
  by (simp add: round_to_exp_def rint_nonpos mult_nonpos_nonneg divide_nonpos_pos)

lemma round_to_exp_pos:
  assumes "pow2 e \<le> x"
  shows "pow2 e \<le> round_to_exp e x"
proof -
  have pos: "0 < pow2 e" by (rule pow2_pos)
  from assms pos have "1 \<le> x / pow2 e" by (simp add: pos_le_divide_eq)
  then have "1 \<le> rint (x / pow2 e)" by (rule rint_ge_one)
  then have "(1::rat) \<le> of_int (rint (x / pow2 e))" by simp
  then have "1 * pow2 e \<le> of_int (rint (x / pow2 e)) * pow2 e"
    using pos by (intro mult_right_mono) simp_all
  then show ?thesis by (simp add: round_to_exp_def)
qed

lemma round_to_exp_neg:
  assumes "x \<le> - pow2 e"
  shows "round_to_exp e x \<le> - pow2 e"
proof -
  have pos: "0 < pow2 e" by (rule pow2_pos)
  from assms pos have "x / pow2 e \<le> - 1" by (simp add: pos_divide_le_eq)
  then have "rint (x / pow2 e) \<le> - 1" by (rule rint_le_minus_one)
  then have "rat_of_int (rint (x / pow2 e)) \<le> - 1" by linarith
  then have "of_int (rint (x / pow2 e)) * pow2 e \<le> (- 1) * pow2 e"
    using pos by (intro mult_right_mono) simp_all
  then show ?thesis by (simp add: round_to_exp_def)
qed

lemma round_to_exp_nonzero_abs:
  assumes "round_to_exp e x \<noteq> 0"
  shows "pow2 e \<le> \<bar>round_to_exp e x\<bar>"
proof -
  have pos: "0 < pow2 e" by (rule pow2_pos)
  define m where "m = rint (x / pow2 e)"
  from assms have "m \<noteq> 0" by (auto simp: round_to_exp_def m_def)
  then have "1 \<le> \<bar>m\<bar>" by simp
  then have "(1::rat) \<le> \<bar>of_int m\<bar>" by linarith
  then have "1 * pow2 e \<le> \<bar>of_int m\<bar> * pow2 e"
    using pos by (intro mult_right_mono) simp_all
  then show ?thesis
    using pos by (simp add: round_to_exp_def m_def [symmetric] abs_mult)
qed

lemma quantum_exp_le:
  assumes "x \<noteq> 0" and "pow2 (- 1074) \<le> \<bar>x\<bar>"
  shows "pow2 (quantum_exp x) \<le> \<bar>x\<bar>"
proof -
  from assms(1) have pos: "0 < \<bar>x\<bar>" by simp
  have "pow2 (floor_log2 \<bar>x\<bar> - 52) \<le> pow2 (floor_log2 \<bar>x\<bar>)"
    by (rule pow2_mono) simp
  also have "\<dots> \<le> \<bar>x\<bar>" using pos by (rule floor_log2_le)
  finally show ?thesis
    using assms(2) by (simp add: quantum_exp_def max_def)
qed

lemma quantum_exp_ge: "- 1074 \<le> quantum_exp x"
  by (simp add: quantum_exp_def)

lemma double_round_cases:
  assumes "x \<noteq> 0"
  shows "double_round x =
     (if round_to_exp (quantum_exp x) x = 0 then (if 0 < x then Finite 0 else NegZero)
      else if 1024 \<le> floor_log2 \<bar>round_to_exp (quantum_exp x) x\<bar>
        then (if 0 < x then PosInf else NegInf)
      else Finite (round_to_exp (quantum_exp x) x))"
  using assms by (simp add: double_round_def Let_def)

lemma double_round_not_nan [simp]: "double_round x \<noteq> NaN"
  by (cases "x = 0") (simp_all add: double_round_def Let_def)

lemma double_round_sign:
  assumes "pow2 (- 1074) \<le> \<bar>v\<bar>"
  shows "\<not> is_zero (double_round v) \<and> (is_neg (double_round v) \<longleftrightarrow> v < 0)"
proof -
  have "0 < pow2 (- 1074)" by (rule pow2_pos)
  with assms have nz: "v \<noteq> 0" by auto
  define e where "e = quantum_exp v"
  define y where "y = round_to_exp e v"
  have le: "pow2 e \<le> \<bar>v\<bar>"
    unfolding e_def using nz assms by (rule quantum_exp_le)
  have pos: "0 < pow2 e" by (rule pow2_pos)
  show ?thesis
  proof (cases "0 < v")
    case True
    with le have "pow2 e \<le> v" by simp
    then have "pow2 e \<le> y" unfolding y_def by (rule round_to_exp_pos)
    with pos have "0 < y" by simp
    with True nz show ?thesis
      by (simp add: double_round_cases e_def [symmetric] y_def [symmetric]
          is_zero_def is_neg_def)
  next
    case False
    with nz have neg: "v < 0" by simp
    with le have "v \<le> - pow2 e" by simp
    then have "y \<le> - pow2 e" unfolding y_def by (rule round_to_exp_neg)
    with pos have "y < 0" by simp
    with neg nz show ?thesis
      by (simp add: double_round_cases e_def [symmetric] y_def [symmetric]
          is_zero_def is_neg_def)
  qed
qed

lemma double_round_finite:
  assumes "double_round y = Finite w" and "w \<noteq> 0"
  shows "pow2 (- 1074) \<le> \<bar>w\<bar> \<and> (0 < w \<longleftrightarrow> 0 < y)"
proof -
  from assms have nz: "y \<noteq> 0" by (auto simp: double_round_def)
  define e where "e = quantum_exp y"
  from assms nz have w: "w = round_to_exp e y"
    by (simp add: double_round_cases e_def [symmetric] split: if_splits)
  with assms(2) have "pow2 e \<le> \<bar>w\<bar>"
    by (simp add: round_to_exp_nonzero_abs)
  moreover have "pow2 (- 1074) \<le> pow2 e"
    unfolding e_def by (rule pow2_mono) (rule quantum_exp_ge)
  ultimately have big: "pow2 (- 1074) \<le> \<bar>w\<bar>" by simp
  have "0 < w \<longleftrightarrow> 0 < y"
  proof (cases "0 < y")
    case True
    then have "0 \<le> w" unfolding w by (simp add: round_to_exp_nonneg)
    with assms(2) True show ?thesis by simp
  next
    case False
    then have "w \<le> 0" unfolding w by (simp add: round_to_exp_nonpos)
    with False show ?thesis by simp
  qed
  with big show ?thesis by simp
qed

lemma double_round_bounded:
  assumes "0 \<le> x" and "x \<le> 1024"
  shows "\<exists>y. double_round x = Finite y \<and> 0 \<le> y \<and> \<bar>y - x\<bar> \<le> pow2 (- 43)"
proof (cases "x = 0")
  case True
  have "0 < pow2 (- 43)" by (rule pow2_pos)
  with True show ?thesis by (simp add: double_round_def)
next
  case False
  with assms have pos: "0 < x" by simp
  define e where "e = quantum_exp x"
  define y where "y = round_to_exp e x"
  have "x < pow2 11" using assms(2) by (simp add: pow2_def)
  with pos have "floor_log2 x < 11" by (rule floor_log2_less)
  then have "e \<le> - 42"
    using pos by (simp add: e_def quantum_exp_def)
  then have "pow2 e \<le> pow2 (- 42)" by (rule pow2_mono)
  then have "pow2 e / 2 \<le> pow2 (- 42) / 2" by simp
  also have "\<dots> = pow2 (- 43)" by (simp add: pow2_half)
  finally have err: "\<bar>y - x\<bar> \<le> pow2 (- 43)"
    using round_to_exp_error [of e x] by (simp add: y_def)
  have nonneg: "0 \<le> y" unfolding y_def using assms(1) by (rule round_to_exp_nonneg)
  have small: "pow2 (- 43) \<le> 1"
    using pow2_mono [of "- 43" 0] by (simp add: pow2_def)
  have no_overflow: "\<not> 1024 \<le> floor_log2 \<bar>y\<bar>" if "y \<noteq> 0"
  proof -
    from that nonneg have ypos: "0 < \<bar>y\<bar>" by simp
    have "\<bar>y\<bar> \<le> 1025" using err small assms(2) nonneg by linarith
    then have "\<bar>y\<bar> < pow2 11" by (simp add: pow2_def)
    with ypos have "floor_log2 \<bar>y\<bar> < 11" by (rule floor_log2_less)
    then show ?thesis by simp
  qed
  have "double_round x = Finite y"
    using False pos no_overflow
    by (simp add: double_round_cases e_def [symmetric] y_def [symmetric])
  with nonneg err show ?thesis by blast
qed

lemma double_round_nat_exact:
  assumes "n < 2 ^ 53"
  shows "double_round (of_nat n) = Finite (of_nat n)"
proof (cases "n = 0")
  case True
  then show ?thesis by (simp add: double_round_def)
next
  case False
  define x where "x = rat_of_nat n"
  from False have pos: "0 < x" by (simp add: x_def)
  then have nz: "x \<noteq> 0" by simp
  define e where "e = quantum_exp x"
  have "x < 2 ^ 53" using assms unfolding x_def
    by (metis of_nat_less_iff of_nat_numeral of_nat_power)
  then have "x < pow2 53" by (simp add: pow2_def)
  with pos have fl: "floor_log2 x < 53" by (rule floor_log2_less)
  then have e: "e \<le> 0" using pos by (simp add: e_def quantum_exp_def)
  then have p: "pow2 e = 1 / 2 ^ nat (- e)"
    by (cases "e = 0") (simp_all add: pow2_def)
  have "x / pow2 e = of_int (int n * 2 ^ nat (- e))"
    by (simp add: p x_def)
  then have "rint (x / pow2 e) = int n * 2 ^ nat (- e)"
    by (simp only: rint_of_int)
  then have y: "round_to_exp e x = x"
    by (simp add: round_to_exp_def p x_def)
  have "\<not> 1024 \<le> floor_log2 \<bar>x\<bar>" using fl pos by simp
  then have "double_round x = Finite x"
    using nz y by (simp add: double_round_cases e_def [symmetric])
  then show ?thesis by (simp add: x_def)
qed

section \<open>Results: cart savings\<close>

lemma double_round_inf_sign:
  "(double_round y = PosInf \<longrightarrow> 0 < y) \<and> (double_round y = NegInf \<longrightarrow> y < 0)"
  by (cases "y = 0") (auto simp: double_round_def Let_def split: if_splits)

lemma zero_divisor_pos:
  "np_round 2 (fmul (fdiv s (Finite 0)) (Finite 100)) =
     (if s = NaN \<or> is_zero s then NaN else signed_inf (is_neg s))"
  by (cases s)
    (simp_all add: np_round_def fmul_def fdiv_def frint_def is_zero_def is_inf_def is_neg_def
      signed_inf_def signed_zero_def)

lemma zero_divisor_neg:
  "np_round 2 (fmul (fdiv s NegZero) (Finite 100)) =
     (if s = NaN \<or> is_zero s then NaN else signed_inf (\<not> is_neg s))"
  by (cases s)
    (simp_all add: np_round_def fmul_def fdiv_def frint_def is_zero_def is_inf_def is_neg_def
      signed_inf_def signed_zero_def)

lemma savings_zero_total:
  "savings_percentage_of (Finite 0) (double_round y) =
     (if is_zero (double_round y) then NaN else if 0 < y then NegInf else PosInf)"
proof -
  define d where "d = double_round y"
  have nn: "d \<noteq> NaN" by (simp add: d_def)
  have "np_round 2 (fmul (fdiv (fsub (Finite 0) d) (Finite 0)) (Finite 100)) =
      (if is_zero d then NaN else if 0 < y then NegInf else PosInf)"
  proof (cases d)
    case (Finite w)
    show ?thesis
    proof (cases "w = 0")
      case True
      with Finite show ?thesis
        by (simp add: zero_divisor_pos fsub_def is_inf_def is_zero_def fval_def signed_zero_def)
    next
      case False
      from Finite have dr: "double_round y = Finite w" by (simp add: d_def)
      from double_round_finite [OF dr False]
      have big: "pow2 (- 1074) \<le> \<bar>w\<bar>" and sign: "0 < w \<longleftrightarrow> 0 < y" by simp_all
      from big have "pow2 (- 1074) \<le> \<bar>- w\<bar>" by simp
      from double_round_sign [OF this]
      have s: "\<not> is_zero (double_round (- w))" "is_neg (double_round (- w)) \<longleftrightarrow> 0 < w"
        by simp_all
      have sub: "fsub (Finite 0) d = double_round (- w)"
        using Finite False by (simp add: fsub_def is_inf_def fval_def)
      show ?thesis
        unfolding sub zero_divisor_pos
        using s sign Finite False
        by (simp add: is_zero_def signed_inf_def)
    qed
  next
    case NegZero
    then show ?thesis
      by (simp add: zero_divisor_pos fsub_def is_inf_def is_zero_def fval_def signed_zero_def)
  next
    case PosInf
    then have "0 < y" using double_round_inf_sign [of y] by (simp add: d_def)
    with PosInf show ?thesis
      by (simp add: zero_divisor_pos fsub_def is_inf_def is_zero_def is_neg_def signed_inf_def)
  next
    case NegInf
    then have "\<not> 0 < y" using double_round_inf_sign [of y] by (simp add: d_def)
    with NegInf show ?thesis
      by (simp add: zero_divisor_pos fsub_def is_inf_def is_zero_def is_neg_def signed_inf_def)
  next
    case NaN
    with nn show ?thesis by simp
  qed
  then show ?thesis
    by (simp add: savings_percentage_of_def total_savings_of_def d_def)
qed

lemma double_round_zero [simp]: "double_round 0 = Finite 0"
  by (simp add: double_round_def)

text \<open>
  Claim C8, as stated, fails on the code: there is no guard for \<open>total = 0\<close>. A cart
  with total 0 and discounted total 5 gets savings percentage \<open>-inf\<close>, which is neither
  zero nor the missing-value marker. Nor is the value the exact quotient: it is computed
  in float64 and rounded to two decimals, so that total 8 and discounted total 7.73 give
  3.37, where the exact value of \<open>(8 - 7.73) / 8 * 100\<close> is 3.375.
\<close>

theorem savings_percentage_unguarded:
  "savings_percentage (priced_cart 0 5) = NegInf
   \<and> savings_percentage (priced_cart 0 5) \<noteq> Finite 0
   \<and> savings_percentage (priced_cart 0 5) \<noteq> NaN
   \<and> savings_percentage (priced_cart 8 (773 / 100)) = double_round (337 / 100)
   \<and> double_round (337 / 100) \<noteq> double_round ((8 - 773 / 100) / 8 * 100)"
proof -
  have zero: "savings_percentage (priced_cart 0 5) = NegInf"
    by code_simp
  have stored: "savings_percentage (priced_cart 8 (773 / 100)) =
      Finite (3794282686059643 / 1125899906842624)"
    by code_simp
  have rounded: "double_round (337 / 100) = Finite (3794282686059643 / 1125899906842624)"
    by code_simp
  have exact: "double_round ((8 - 773 / 100) / 8 * 100) = Finite (27 / 8)"
    by code_simp
  show ?thesis
    unfolding zero stored rounded exact by simp
qed

text \<open>
  Claim C8, amended. For every cart row the savings percentage is the float64 evaluation
  of \<open>(total - discountedTotal) / total * 100\<close>, rounded to two decimals by numpy
  (multiply by 100, \<open>rint\<close>, divide by 100). The division is not guarded: when the
  total is zero, of either sign, the result is NaN if the savings are zero or NaN, and
  otherwise an infinity whose sign is that of the savings (reversed for a negative
  zero). For a row with total 0 this is NaN when the discounted total is missing or
  rounds to zero, \<open>-inf\<close> when it is positive and \<open>+inf\<close> when it is negative.
\<close>

theorem savings_percentage_float:
  "savings_percentage c =
     np_round 2
       (fmul (fdiv (fsub (cell_double (total c)) (cell_double (discountedTotal c)))
                (cell_double (total c)))
          (Finite 100))
   \<and> savings_percentage_of (Finite 0) d =
       (if fsub (Finite 0) d = NaN \<or> is_zero (fsub (Finite 0) d) then NaN
        else signed_inf (is_neg (fsub (Finite 0) d)))
   \<and> savings_percentage_of NegZero d =
       (if fsub NegZero d = NaN \<or> is_zero (fsub NegZero d) then NaN
        else signed_inf (\<not> is_neg (fsub NegZero d)))
   \<and> savings_percentage (c\<lparr>total := Some 0\<rparr>) =
       (case discountedTotal c of
          None \<Rightarrow> NaN
        | Some y \<Rightarrow>
            if is_zero (double_round y) then NaN else if 0 < y then NegInf else PosInf)
   \<and> savings_percentage (priced_cart 8 (773 / 100)) = double_round (337 / 100)
   \<and> savings_percentage (priced_cart 3 2) = double_round (3333 / 100)
   \<and> savings_percentage (priced_cart 0 0) = NaN
   \<and> savings_percentage_of NegZero (Finite 5) = PosInf"
proof -
  have formula: "savings_percentage c =
     np_round 2
       (fmul (fdiv (fsub (cell_double (total c)) (cell_double (discountedTotal c)))
                (cell_double (total c)))
          (Finite 100))"
    by (simp add: savings_percentage_def savings_percentage_of_def total_savings_of_def)
  have pos_zero: "savings_percentage_of (Finite 0) d =
       (if fsub (Finite 0) d = NaN \<or> is_zero (fsub (Finite 0) d) then NaN
        else signed_inf (is_neg (fsub (Finite 0) d)))"
    unfolding savings_percentage_of_def total_savings_of_def by (rule zero_divisor_pos)
  have neg_zero: "savings_percentage_of NegZero d =
       (if fsub NegZero d = NaN \<or> is_zero (fsub NegZero d) then NaN
        else signed_inf (\<not> is_neg (fsub NegZero d)))"
    unfolding savings_percentage_of_def total_savings_of_def by (rule zero_divisor_neg)
  have row: "savings_percentage (c\<lparr>total := Some 0\<rparr>) =
       (case discountedTotal c of
          None \<Rightarrow> NaN
        | Some y \<Rightarrow>
            if is_zero (double_round y) then NaN else if 0 < y then NegInf else PosInf)"
  proof (cases "discountedTotal c")
    case None
    then show ?thesis
      by (simp add: savings_percentage_def cell_double_def savings_percentage_of_def
          total_savings_of_def zero_divisor_pos fsub_def)
  next
    case (Some y)
    then show ?thesis
      by (simp add: savings_percentage_def cell_double_def savings_zero_total)
  qed
  have ex1: "savings_percentage (priced_cart 8 (773 / 100)) =
      Finite (3794282686059643 / 1125899906842624)"
    by code_simp
  have ex2: "double_round (337 / 100) = Finite (3794282686059643 / 1125899906842624)"
    by code_simp
  have ex3: "savings_percentage (priced_cart 3 2) = Finite (2345390243441541 / 70368744177664)"
    by code_simp
  have ex4: "double_round (3333 / 100) = Finite (2345390243441541 / 70368744177664)"
    by code_simp
  have ex5: "savings_percentage (priced_cart 0 0) = NaN"
    by code_simp
  have ex6: "savings_percentage_of NegZero (Finite 5) = PosInf"
    by code_simp
  from formula pos_zero neg_zero row ex1 ex2 ex3 ex4 ex5 ex6 show ?thesis
    by (simp only: simp_thms)
qed

section \<open>Results: grouping and sums\<close>

lemma nansum_sum_list:
  "nansum cs = sum_list (map (\<lambda>c. case c of None \<Rightarrow> 0 | Some v \<Rightarrow> v) cs)"
  by (induction cs rule: nansum.induct) simp_all

lemma nancount_sum_list:
  "nancount cs = sum_list (map (\<lambda>c. case c of None \<Rightarrow> 0 | Some v \<Rightarrow> 1) cs)"
  by (induction cs rule: nancount.induct) simp_all

lemma set_map_filter_keys:
  "set (List.map_filter key rows) = {k. Some k \<in> key ` set rows}"
proof (induction rows)
  case Nil
  then show ?case by simp
next
  case (Cons r rows)
  then show ?case by (cases "key r") (auto simp: image_iff)
qed

lemma set_group_keys:
  "set (group_keys key rows) = {k. Some k \<in> key ` set rows}"
  by (simp add: group_keys_def set_map_filter_keys)

lemma distinct_group_keys: "distinct (group_keys key rows)"
  by (simp add: group_keys_def)


lemma sum_list_single:
  fixes v :: "'b::comm_monoid_add"
  assumes "distinct ks" and "k \<in> set ks"
  shows "sum_list (map (\<lambda>j. if j = k then v else 0) ks) = v"
  using assms
proof (induction ks)
  case Nil
  then show ?case by simp
next
  case (Cons j ks)
  show ?case
  proof (cases "j = k")
    case True
    with Cons.prems have "k \<notin> set ks" by simp
    then have "sum_list (map (\<lambda>j. if j = k then v else 0) ks) = 0"
      by (induction ks) auto
    with True show ?thesis by simp
  next
    case False
    with Cons show ?thesis by simp
  qed
qed

lemma group_sum_partition:
  fixes g :: "'r \<Rightarrow> 'b::comm_monoid_add"
  assumes "distinct ks" and "{k. Some k \<in> key ` set rows} \<subseteq> set ks"
  shows "sum_list (map (\<lambda>k. sum_list (map g (group_rows key rows k))) ks) =
         sum_list (map g (filter (\<lambda>r. key r \<noteq> None) rows))"
  using assms(2)
proof (induction rows)
  case Nil
  then show ?case by (simp add: group_rows_def)
next
  case (Cons r rows)
  then have sub: "{k. Some k \<in> key ` set rows} \<subseteq> set ks" by auto
  note IH = Cons.IH [OF sub]
  show ?case
  proof (cases "key r")
    case None
    then have "\<And>k. group_rows key (r # rows) k = group_rows key rows k"
      by (simp add: group_rows_def)
    with None IH show ?thesis by simp
  next
    case (Some k)
    with Cons.prems have k: "k \<in> set ks" by auto
    have "\<And>j. sum_list (map g (group_rows key (r # rows) j)) =
        (if j = k then g r else 0) + sum_list (map g (group_rows key rows j))"
      using Some by (auto simp: group_rows_def)
    then have "sum_list (map (\<lambda>j. sum_list (map g (group_rows key (r # rows) j))) ks) =
        sum_list (map (\<lambda>j. if j = k then g r else 0) ks)
        + sum_list (map (\<lambda>j. sum_list (map g (group_rows key rows j))) ks)"
      by (simp add: sum_list_addf)
    also have "\<dots> = g r + sum_list (map g (filter (\<lambda>r. key r \<noteq> None) rows))"
      using sum_list_single [OF assms(1) k, of "g r"] IH by simp
    finally show ?thesis using Some by simp
  qed
qed

section \<open>Results: category revenue\<close>

lemma map_of_keyed:
  "map_of (map (\<lambda>k. (k, f k)) ks) c = (if c \<in> set ks then Some (f c) else None)"
  by (induction ks) auto

lemma revenue_lookup:
  "map_of (revenue_by_category ps) c =
     (if Some c \<in> category ` set ps
      then Some (nansum (map (\<lambda>x. cell_mul (price x) (stock x))
                   (filter (\<lambda>x. category x = Some c) ps)))
      else None)"
  by (simp add: revenue_by_category_def map_of_keyed set_group_keys category_revenue_def
      group_rows_def)

lemma revenue_total:
  "sum_list (map snd (revenue_by_category ps)) =
     nansum (map (\<lambda>x. cell_mul (price x) (stock x)) (filter (\<lambda>x. category x \<noteq> None) ps))"
proof -
  let ?g = "\<lambda>x. case cell_mul (price x) (stock x) of None \<Rightarrow> 0 | Some v \<Rightarrow> v"
  have "sum_list (map snd (revenue_by_category ps)) =
      sum_list (map (\<lambda>k. sum_list (map ?g (group_rows category ps k))) (group_keys category ps))"
    by (simp add: revenue_by_category_def category_revenue_def nansum_sum_list comp_def)
  also have "\<dots> = sum_list (map ?g (filter (\<lambda>r. category r \<noteq> None) ps))"
    by (rule group_sum_partition) (simp_all add: distinct_group_keys set_group_keys)
  finally show ?thesis
    by (simp add: nansum_sum_list comp_def)
qed

lemma revenue_complete_rows:
  "nansum (map (\<lambda>x. cell_mul (price x) (stock x))
       (filter (\<lambda>x. category x = Some c) (map (\<lambda>(k, p, s, r). product_row k p s r) ts))) =
   sum_list (map (\<lambda>(k, p, s, r). p * s) (filter (\<lambda>(k, p, s, r). k = c) ts))"
  by (induction ts) (auto simp: product_row_def cell_mul_def)

text \<open>
  Claim C3. For each category, \<open>revenue_potential\<close> is the sum over that category's
  rows of price times stock, formed per row and then summed (a row whose price or stock
  is missing has a missing product, which the sum skips). For rows with price and stock
  present it is exactly the sum of \<open>price * stock\<close> over the category's rows. The summary
  table carries the same values, every category appears once, and the values of all
  categories add up to the sum over all rows that have a category: no row is dropped or
  counted twice. For the products of the specification's scenario, A gets 70 and B 50.
\<close>

theorem revenue_potential_is_sum_of_row_products:
  "map_of (revenue_by_category ps) c =
     (if Some c \<in> category ` set ps
      then Some (nansum (map (\<lambda>x. cell_mul (price x) (stock x))
                   (filter (\<lambda>x. category x = Some c) ps)))
      else None)
   \<and> map_of (revenue_by_category (map (\<lambda>(k, p, s, r). product_row k p s r) ts)) c =
     (if c \<in> (\<lambda>(k, p, s, r). k) ` set ts
      then Some (sum_list (map (\<lambda>(k, p, s, r). p * s) (filter (\<lambda>(k, p, s, r). k = c) ts)))
      else None)
   \<and> map (\<lambda>r. (fst r, revenue_potential (snd r))) (revenue_data ps) = revenue_by_category ps
   \<and> distinct (map fst (revenue_by_category ps))
   \<and> sum_list (map snd (revenue_by_category ps)) =
       nansum (map (\<lambda>x. cell_mul (price x) (stock x)) (filter (\<lambda>x. category x \<noteq> None) ps))
   \<and> revenue_by_category spec_products = [(''A'', 70), (''B'', 50)]"
proof -
  have complete: "map_of (revenue_by_category (map (\<lambda>(k, p, s, r). product_row k p s r) ts)) c =
     (if c \<in> (\<lambda>(k, p, s, r). k) ` set ts
      then Some (sum_list (map (\<lambda>(k, p, s, r). p * s) (filter (\<lambda>(k, p, s, r). k = c) ts)))
      else None)"
  proof -
    have "Some c \<in> category ` set (map (\<lambda>(k, p, s, r). product_row k p s r) ts) \<longleftrightarrow>
        c \<in> (\<lambda>(k, p, s, r). k) ` set ts"
      by (force simp: product_row_def image_iff)
    then show ?thesis
      by (simp only: revenue_lookup revenue_complete_rows)
  qed
  have same: "map (\<lambda>r. (fst r, revenue_potential (snd r))) (revenue_data ps) =
      revenue_by_category ps"
    by (simp add: revenue_data_def revenue_by_category_def category_row_def Let_def comp_def)
  have dist: "distinct (map fst (revenue_by_category ps))"
    by (simp add: revenue_by_category_def comp_def distinct_group_keys)
  have example: "revenue_by_category spec_products = [(''A'', 70), (''B'', 50)]"
    by code_simp
  from revenue_lookup [of ps c] complete same dist revenue_total [of ps] example
  show ?thesis by blast
qed

section \<open>Results: order of the category summary\<close>







section \<open>Results: segment percentages\<close>

lemma sum_list_error:
  fixes f g :: "'a \<Rightarrow> rat"
  assumes "\<And>x. \<bar>f x - g x\<bar> \<le> e"
  shows "\<bar>sum_list (map f xs) - sum_list (map g xs)\<bar> \<le> of_nat (length xs) * e"
proof (induction xs)
  case Nil
  then show ?case by simp
next
  case (Cons x xs)
  have "\<bar>sum_list (map f (x # xs)) - sum_list (map g (x # xs))\<bar> =
      \<bar>(f x - g x) + (sum_list (map f xs) - sum_list (map g xs))\<bar>"
    by simp
  also have "\<dots> \<le> \<bar>f x - g x\<bar> + \<bar>sum_list (map f xs) - sum_list (map g xs)\<bar>"
    by (rule abs_triangle_ineq)
  also have "\<dots> \<le> e + of_nat (length xs) * e"
    using assms [of x] Cons.IH by simp
  finally show ?case by (simp add: algebra_simps)
qed

lemma segment_labels:
  "segmentation_categorize_age a \<in>
     {''Gen Z (Under 25)'', ''Millennials (25-35)'', ''Gen X (36-50)'', ''Boomers (50+)''}"
  by (simp add: segmentation_categorize_age_def)

lemma segment_keys_length: "length (group_keys age_segment users) \<le> 4"
proof -
  let ?L = "{''Gen Z (Under 25)'', ''Millennials (25-35)'', ''Gen X (36-50)'', ''Boomers (50+)''}"
  have "set (group_keys age_segment users) \<subseteq> ?L"
    using segment_labels by (auto simp: set_group_keys age_segment_def)
  then have "card (set (group_keys age_segment users)) \<le> card ?L"
    by (intro card_mono) simp_all
  also have "card ?L \<le> 4"
    by (simp add: card_insert_if)
  finally show ?thesis
    using distinct_group_keys [of age_segment users] by (simp add: distinct_card)
qed

lemma segment_count_sum:
  "sum_list (map (segment_count users) (group_keys age_segment users)) = nancount (map age users)"
proof -
  let ?g = "\<lambda>u. case age u of None \<Rightarrow> 0 | Some v \<Rightarrow> (1::nat)"
  have "sum_list (map (segment_count users) (group_keys age_segment users)) =
      sum_list (map (\<lambda>k. sum_list (map ?g (group_rows age_segment users k)))
        (group_keys age_segment users))"
  proof -
    have "segment_count users =
        (\<lambda>k. sum_list (map ?g (group_rows age_segment users k)))"
      by (rule ext) (simp add: segment_count_def nancount_sum_list comp_def)
    then show ?thesis by simp
  qed
  also have "\<dots> = sum_list (map ?g (filter (\<lambda>u. age_segment u \<noteq> None) users))"
    by (rule group_sum_partition) (simp_all add: distinct_group_keys set_group_keys)
  also have "\<dots> = nancount (map age users)"
    by (simp add: age_segment_def nancount_sum_list comp_def)
  finally show ?thesis .
qed

lemma nancount_positive:
  assumes "\<exists>u \<in> set users. age u \<noteq> None"
  shows "0 < nancount (map age users)"
  using assms
proof (induction users)
  case Nil
  then show ?case by simp
next
  case (Cons u users)
  then show ?case by (cases "age u") auto
qed

lemma sum_list_scaled:
  fixes f :: "'a \<Rightarrow> rat"
  shows "sum_list (map (\<lambda>k. f k / c * m) ks) = sum_list (map f ks) / c * m"
  by (induction ks) (simp_all add: add_divide_distrib distrib_right)

lemma rat_of_nat_sum_list:
  "(\<Sum>k\<leftarrow>ks. rat_of_nat (f k)) = rat_of_nat (sum_list (map f ks))"
  by (induction ks) simp_all

lemma fdiv_nonneg:
  assumes "0 \<le> a" and "0 < b"
  shows "fdiv (Finite a) (Finite b) = double_round (a / b)"
  using assms
  by (simp add: fdiv_def is_inf_def is_zero_def is_neg_def fval_def signed_zero_def)

lemma fmul_nonneg:
  assumes "0 \<le> a" and "0 < b"
  shows "fmul (Finite a) (Finite b) = double_round (a * b)"
  using assms
  by (simp add: fmul_def is_inf_def is_zero_def is_neg_def fval_def signed_zero_def)

lemma frint_nonneg:
  assumes "0 \<le> a"
  shows "frint (Finite a) = Finite (of_int (rint a))"
  using assms by (simp add: frint_def signed_zero_def)

lemma segment_percentage_bound:
  assumes "0 < n" and "c \<le> n" and "n < 2 ^ 53"
  shows "\<exists>p. segment_percentage c n = Finite p
     \<and> \<bar>p - rat_of_nat c / rat_of_nat n * 100\<bar> \<le> 1 / 20 + 103 * pow2 (- 43)"
proof -
  define eps where "eps = pow2 (- 43)"
  have eps: "eps = 1 / 8796093022208" by (simp add: eps_def pow2_def)
  define r where "r = rat_of_nat c / rat_of_nat n"
  have r0: "0 \<le> r" by (simp add: r_def)
  have r1: "r \<le> 1" using assms(1,2) by (simp add: r_def)
  from assms have c53: "c < 2 ^ 53" by simp
  have conv: "double_round (of_nat c) = Finite (of_nat c)"
    "double_round (of_nat n) = Finite (of_nat n)"
    using c53 assms(3) by (simp_all add: double_round_nat_exact)
  have "fdiv (Finite (of_nat c)) (Finite (of_nat n)) = double_round r"
    unfolding r_def using assms(1) by (intro fdiv_nonneg) simp_all
  moreover obtain y1 where y1: "double_round r = Finite y1" "0 \<le> y1" "\<bar>y1 - r\<bar> \<le> eps"
    using double_round_bounded [of r] r0 r1 unfolding eps_def by auto
  ultimately have q1: "fdiv (double_round (of_nat c)) (double_round (of_nat n)) = Finite y1"
    by (simp add: conv)
  have "y1 * 100 \<le> 1024" using y1(3) r1 eps by linarith
  moreover have "0 \<le> y1 * 100" using y1(2) by simp
  ultimately obtain y2 where y2: "double_round (y1 * 100) = Finite y2" "0 \<le> y2"
      "\<bar>y2 - y1 * 100\<bar> \<le> eps"
    using double_round_bounded [of "y1 * 100"] unfolding eps_def by auto
  have q2: "fmul (Finite y1) (Finite 100) = Finite y2"
    using fmul_nonneg [of y1 100] y1(2) y2(1) by simp
  have "y2 * 10 \<le> 1024" using y2(3) y1(3) r1 eps by linarith
  moreover have "0 \<le> y2 * 10" using y2(2) by simp
  ultimately obtain y3 where y3: "double_round (y2 * 10) = Finite y3" "0 \<le> y3"
      "\<bar>y3 - y2 * 10\<bar> \<le> eps"
    using double_round_bounded [of "y2 * 10"] unfolding eps_def by auto
  have q3: "fmul (Finite y2) (Finite 10) = Finite y3"
    using fmul_nonneg [of y2 10] y2(2) y3(1) by simp
  define k where "k = rat_of_int (rint y3)"
  have k0: "0 \<le> k" unfolding k_def using y3(2) by (simp add: rint_nonneg)
  have kerr: "\<bar>k - y3\<bar> \<le> 1 / 2" unfolding k_def by (rule rint_error)
  have q4: "frint (Finite y3) = Finite k"
    unfolding k_def using y3(2) by (rule frint_nonneg)
  have "k / 10 \<le> 1024" using kerr y3(3) y2(3) y1(3) r1 eps by linarith
  moreover have "0 \<le> k / 10" using k0 by simp
  ultimately obtain p where p: "double_round (k / 10) = Finite p" "\<bar>p - k / 10\<bar> \<le> eps"
    using double_round_bounded [of "k / 10"] unfolding eps_def by auto
  have q5: "fdiv (Finite k) (Finite 10) = Finite p"
    using fdiv_nonneg [of k 10] k0 p(1) by simp
  have "segment_percentage c n = Finite p"
    by (simp add: segment_percentage_def np_round_def q1 q2 q3 q4 q5)
  moreover have "\<bar>p - r * 100\<bar> \<le> 1 / 20 + 103 * eps"
    using p(2) kerr y3(3) y2(3) y1(3) eps by linarith
  ultimately show ?thesis
    unfolding r_def eps_def by blast
qed

lemma segment_count_le: "segment_count users k \<le> nancount (map age users)"
  unfolding segment_count_def group_rows_def
proof (induction users)
  case Nil
  then show ?case by simp
next
  case (Cons u users)
  then show ?case by (cases "age u") auto
qed

lemma nancount_le_length: "nancount cs \<le> length cs"
  by (induction cs rule: nancount.induct) simp_all

lemma percentages_unfold:
  "percentages users =
     map (\<lambda>k. segment_percentage (segment_count users k)
                (sum_list (map (segment_count users) (group_keys age_segment users))))
       (group_keys age_segment users)"
  by (simp add: percentages_def segment_summary_def Let_def comp_def)

text \<open>
  Claim C9, as stated, fails on the code: with four segments each percentage is rounded
  to one decimal on its own, and four rounding errors of 0.05 add up to 0.2. Sixteen
  users, seven over 50 and three in each of the other segments, have exact shares 43.75,
  18.75, 18.75 and 18.75; each is exact in float64, its tenfold ends in one half and is
  rounded to the even neighbour above, so the stored percentages are the float64 numbers
  next to 43.8, 18.8, 18.8 and 18.8, whose sum exceeds 100 by more than 0.1999.
\<close>

theorem percentages_sum_off_by_two_tenths:
  "percentages sixteen_users =
     map Finite [3082150994981683 / 70368744177664, 5291729562160333 / 281474976710656,
       5291729562160333 / 281474976710656, 5291729562160333 / 281474976710656]
   \<and> sum_list [3082150994981683 / 70368744177664, 5291729562160333 / 281474976710656,
       5291729562160333 / 281474976710656, 5291729562160333 / 281474976710656] - (100 :: rat)
       = 56294995342131 / 281474976710656
   \<and> (1 / 10 :: rat) < 56294995342131 / 281474976710656"
proof -
  have keys: "group_keys age_segment sixteen_users =
      [''Boomers (50+)'', ''Gen X (36-50)'', ''Gen Z (Under 25)'', ''Millennials (25-35)'']"
    by code_simp
  have counts: "segment_count sixteen_users ''Boomers (50+)'' = 7"
    "segment_count sixteen_users ''Gen X (36-50)'' = 3"
    "segment_count sixteen_users ''Gen Z (Under 25)'' = 3"
    "segment_count sixteen_users ''Millennials (25-35)'' = 3"
    by code_simp+
  have p7: "segment_percentage 7 16 = Finite (3082150994981683 / 70368744177664)"
    by code_simp
  have p3: "segment_percentage 3 16 = Finite (5291729562160333 / 281474976710656)"
    by code_simp
  have rows: "percentages sixteen_users =
     map Finite [3082150994981683 / 70368744177664, 5291729562160333 / 281474976710656,
       5291729562160333 / 281474976710656, 5291729562160333 / 281474976710656]"
    by (simp add: percentages_unfold keys counts p7 p3)
  have total: "sum_list [3082150994981683 / 70368744177664, 5291729562160333 / 281474976710656,
       5291729562160333 / 281474976710656, 5291729562160333 / 281474976710656] - (100 :: rat)
       = 56294995342131 / 281474976710656"
    by simp
  have over: "(1 / 10 :: rat) < 56294995342131 / 281474976710656"
    by simp
  from rows total over show ?thesis by (simp only: simp_thms)
qed

text \<open>
  Claim C9, amended. For every set of fewer than \<open>2^53\<close> user rows in which at least
  one age is present, the percentages of the age segmentation are finite float64
  numbers, there are at most four of them, and their sum is within 0.2 of 100 up to the
  float64 rounding of the five operations behind each of them (less than \<open>10^-9\<close> in
  all).
\<close>

theorem percentages_sum_float:
  assumes "\<exists>u \<in> set users. age u \<noteq> None" and "length users < 2 ^ 53"
  shows "\<exists>qs. percentages users = map Finite qs \<and> length qs \<le> 4
           \<and> \<bar>sum_list qs - 100\<bar> \<le> 2 / 10 + 1 / 10 ^ 9"
proof -
  define keys where "keys = group_keys age_segment users"
  define n where "n = sum_list (map (segment_count users) keys)"
  define x where "x = (\<lambda>k. rat_of_nat (segment_count users k) / rat_of_nat n * 100)"
  define f where "f = (\<lambda>k. fval (segment_percentage (segment_count users k) n))"
  define qs where "qs = map f keys"
  have n_eq: "n = nancount (map age users)"
    unfolding n_def keys_def by (rule segment_count_sum)
  have n_pos: "0 < n"
    unfolding n_eq by (rule nancount_positive [OF assms(1)])
  then have n_ne: "rat_of_nat n \<noteq> 0" by simp
  have "n \<le> length users"
    unfolding n_eq using nancount_le_length [of "map age users"] by simp
  with assms(2) have n53: "n < 2 ^ 53" by simp
  have seg: "segment_percentage (segment_count users k) n = Finite (f k)
      \<and> \<bar>f k - x k\<bar> \<le> 1 / 20 + 103 * pow2 (- 43)" for k
  proof -
    have "segment_count users k \<le> n"
      unfolding n_eq by (rule segment_count_le)
    from segment_percentage_bound [OF n_pos this n53] show ?thesis
      by (auto simp: f_def x_def fval_def)
  qed
  have "percentages users = map (\<lambda>k. segment_percentage (segment_count users k) n) keys"
    by (simp add: percentages_def segment_summary_def Let_def comp_def n_def keys_def)
  also have "\<dots> = map Finite qs"
    using seg by (simp add: qs_def)
  finally have pct: "percentages users = map Finite qs" .
  have len: "length keys \<le> 4"
    unfolding keys_def by (rule segment_keys_length)
  have "sum_list (map x keys) =
      (\<Sum>k\<leftarrow>keys. rat_of_nat (segment_count users k)) / rat_of_nat n * 100"
    unfolding x_def by (rule sum_list_scaled)
  also have "(\<Sum>k\<leftarrow>keys. rat_of_nat (segment_count users k)) = rat_of_nat n"
    unfolding n_def by (rule rat_of_nat_sum_list)
  finally have exact: "sum_list (map x keys) = 100"
    using n_ne by simp
  have eps: "pow2 (- 43) = 1 / 8796093022208" by (simp add: pow2_def)
  have "\<bar>sum_list (map f keys) - sum_list (map x keys)\<bar>
      \<le> of_nat (length keys) * (1 / 20 + 103 * pow2 (- 43))"
    by (rule sum_list_error) (use seg in simp)
  also have "\<dots> \<le> 4 * (1 / 20 + 103 * pow2 (- 43))"
    using len by (intro mult_right_mono) (simp_all add: eps)
  also have "\<dots> \<le> 2 / 10 + 1 / 10 ^ 9"
    by (simp add: eps)
  finally have "\<bar>sum_list qs - 100\<bar> \<le> 2 / 10 + 1 / 10 ^ 9"
    using exact by (simp add: qs_def)
  moreover have "length qs \<le> 4"
    using len by (simp add: qs_def)
  ultimately show ?thesis using pct by blast
qed

theorem percentages_sum_float_witness:
  "percentages three_users = [Finite 0, Finite 50, Finite 50]
   \<and> (\<exists>qs. percentages three_users = map Finite qs \<and> length qs \<le> 4
           \<and> \<bar>sum_list qs - 100\<bar> \<le> 2 / 10 + 1 / 10 ^ 9)"
proof -
  have some_age: "\<exists>u \<in> set three_users. age u \<noteq> None"
    by (simp add: three_users_def aged_def)
  have few: "length three_users < 2 ^ 53"
    by (simp add: three_users_def)
  have keys: "group_keys age_segment three_users =
      [''Boomers (50+)'', ''Gen Z (Under 25)'', ''Millennials (25-35)'']"
    by code_simp
  have counts: "segment_count three_users ''Boomers (50+)'' = 0"
    "segment_count three_users ''Gen Z (Under 25)'' = 1"
    "segment_count three_users ''Millennials (25-35)'' = 1"
    by code_simp+
  have p0: "segment_percentage 0 (Suc (Suc 0)) = Finite 0" by code_simp
  have p1: "segment_percentage (Suc 0) (Suc (Suc 0)) = Finite 50" by code_simp
  have rows: "percentages three_users = [Finite 0, Finite 50, Finite 50]"
    by (simp add: percentages_unfold keys counts p0 p1)
  from percentages_sum_float [OF some_age few] rows show ?thesis
    by (simp only: simp_thms)
qed

end
